theory Spec2Isabelle
  imports Complex_Main "HOL-Library.Sublist" "HOL-Library.AList"
begin

section \<open>Untyped payloads\<close>

text \<open>
  The TypeScript sources handle values of type \<open>unknown\<close> that come out of
  \<open>res.json()\<close>. A JavaScript number is either a finite double, which is idealised here as
  a real, or one of the three non-finite values (\<open>JSON.parse("1e999")\<close> is \<open>Infinity\<close>).
  \<open>JUndefined\<close> is what reading a missing index or field gives.
\<close>

datatype jsnum = JFinite real | JPosInf | JNegInf | JNaN

datatype json =
    JUndefined
  | JNull
  | JBool bool
  | JNum jsnum
  | JStr string
  | JArr "json list"
  | JObj "(string \<times> json) list"

text \<open>\<open>xs[i]\<close> on a JavaScript array: out of range reads give \<open>undefined\<close>.\<close>

definition elemAt :: "json list \<Rightarrow> nat \<Rightarrow> json" where
  "elemAt xs i = (if i < length xs then xs ! i else JUndefined)"

section \<open>Shape normalizer (lib/balloons)\<close>

record BalloonPoint =
  lat :: real
  lon :: real
  meta :: "real option"

text \<open>
  \<open>isNumber(x)\<close> is \<open>typeof x === "number" && Number.isFinite(x)\<close>; \<open>asNumber\<close> gives the
  value that the type guard narrows to.
\<close>

fun asNumber :: "json \<Rightarrow> real option" where
  "asNumber (JNum (JFinite r)) = Some r"
| "asNumber _ = None"

definition isNumber :: "json \<Rightarrow> bool" where
  "isNumber x = (asNumber x \<noteq> None)"

fun isRecord :: "json \<Rightarrow> bool" where
  "isRecord (JArr _) = True"
| "isRecord (JObj _) = True"
| "isRecord _ = False"

text \<open>
  \<open>unwrapPayload\<close>: \<open>isRecord(raw) && "data" in raw\<close> holds for an object with a
  \<open>data\<close> key; an array is a record too but has no such property.
\<close>

fun unwrapPayload :: "json \<Rightarrow> json" where
  "unwrapPayload (JObj kvs) =
     (case map_of kvs ''data'' of Some d \<Rightarrow> d | None \<Rightarrow> JObj kvs)"
| "unwrapPayload raw = raw"

definition normalizeArray :: "json list \<Rightarrow> BalloonPoint option" where
  "normalizeArray p =
     (if length p < 2 then None
      else
        let a = elemAt p 0; b = elemAt p 1; m = elemAt p 2 in
        (case asNumber a of
           None \<Rightarrow> None
         | Some a' \<Rightarrow>
             (case asNumber b of
                None \<Rightarrow> None
              | Some b' \<Rightarrow>
                  let looksLikeLonLat = (\<bar>a'\<bar> > 90 \<and> \<bar>b'\<bar> \<le> 90);
                      lt = (if looksLikeLonLat then b' else a');
                      ln = (if looksLikeLonLat then a' else b')
                  in if \<bar>lt\<bar> > 90 \<or> \<bar>ln\<bar> > 180 then None
                     else Some \<lparr>lat = lt, lon = ln, meta = asNumber m\<rparr>)))"

fun normalizePoint :: "json \<Rightarrow> BalloonPoint option" where
  "normalizePoint (JArr p) = normalizeArray p"
| "normalizePoint _ = None"

text \<open>The test both shape predicates apply to a first element or first point.\<close>

fun pointLike :: "json \<Rightarrow> bool" where
  "pointLike (JArr f) = (length f \<ge> 2 \<and> isNumber (elemAt f 0) \<and> isNumber (elemAt f 1))"
| "pointLike _ = False"

fun isFlatPointsShape :: "json \<Rightarrow> bool" where
  "isFlatPointsShape (JArr d) = (if length d = 0 then True else pointLike (elemAt d 0))"
| "isFlatPointsShape _ = False"

fun isTracksShape :: "json \<Rightarrow> bool" where
  "isTracksShape (JArr d) =
     (if length d = 0 then True
      else (case elemAt d 0 of
              JArr firstTrack \<Rightarrow>
                if length firstTrack = 0 then False else pointLike (elemAt firstTrack 0)
            | _ \<Rightarrow> False))"
| "isTracksShape _ = False"

text \<open>\<open>Array.isArray(track) && track.length ? track[track.length - 1] : null\<close>\<close>

fun lastOfTrack :: "json \<Rightarrow> json" where
  "lastOfTrack (JArr t) = (if length t \<noteq> 0 then elemAt t (length t - 1) else JNull)"
| "lastOfTrack _ = JNull"

text \<open>
  \<open>.map(normalizePoint).filter(Boolean)\<close>: a point object is truthy and \<open>null\<close> is not, so
  the filter keeps exactly the points.
\<close>

definition keepPoints :: "json list \<Rightarrow> BalloonPoint list" where
  "keepPoints xs = List.map_filter normalizePoint xs"

text \<open>
  The preview of the error message. \<open>JSON.stringify\<close> is taken as a parameter; it returns
  \<open>undefined\<close> on \<open>undefined\<close>, where \<open>.slice\<close> throws and the handler uses \<open>String(data)\<close>.
\<close>

definition preview :: "(json \<Rightarrow> string) \<Rightarrow> json \<Rightarrow> string" where
  "preview stringify d =
     (case d of JUndefined \<Rightarrow> ''undefined'' | _ \<Rightarrow> take 200 (stringify d))"

definition extractLatestPositions ::
    "(json \<Rightarrow> string) \<Rightarrow> json \<Rightarrow> string + BalloonPoint list" where
  "extractLatestPositions stringify raw =
     (let d = unwrapPayload raw in
      if d = JArr [] then Inr []
      else if isFlatPointsShape d then
        (case d of JArr xs \<Rightarrow> Inr (keepPoints xs) | _ \<Rightarrow> Inr [])
      else if isTracksShape d then
        (case d of JArr tracks \<Rightarrow> Inr (keepPoints (map lastOfTrack tracks)) | _ \<Rightarrow> Inr [])
      else Inl (''Unexpected balloon data shape. Preview: '' @ preview stringify d))"


text \<open>
  Decimal rendering of a non-negative integer, as a template literal prints it
  (\<open>`b${n}`\<close>, \<open>`API fetch failed: ${res.status}`\<close>).
\<close>

definition digitChar :: "nat \<Rightarrow> char" where
  "digitChar d = ''0123456789'' ! d"

fun showNat :: "nat \<Rightarrow> string" where
  "showNat n = (if n < 10 then [digitChar n] else showNat (n div 10) @ [digitChar (n mod 10)])"

declare showNat.simps [simp del]

section \<open>Client fetch with metadata (lib/balloons)\<close>

datatype source = Upstream | Cache

record BalloonsPayload =
  payload_hoursAgo :: real
  payload_source :: source
  payload_cacheAgeSeconds :: "real option"
  points :: "BalloonPoint list"

text \<open>
  What \<open>await fetch(...)\<close> followed by \<open>await res.json()\<close> can give: the fetch rejects
  (a network error, with its message), or there is a response with a status whose body
  either fails to parse (the message of the error thrown) or parses to a value.
\<close>

datatype http_result = NetworkError string | HttpResponse nat "string + json"

text \<open>Reading a property of a value that came out of \<open>JSON.parse\<close>.\<close>

fun field :: "json \<Rightarrow> string \<Rightarrow> json" where
  "field (JObj kvs) k = (case map_of kvs k of Some v \<Rightarrow> v | None \<Rightarrow> JUndefined)"
| "field _ k = JUndefined"

definition resolveSource :: "json \<Rightarrow> source" where
  "resolveSource raw =
     (if isRecord raw \<and> field raw ''source'' = JStr ''cache'' then Cache else Upstream)"

definition fetchLatestBalloonsWithMeta ::
    "(json \<Rightarrow> string) \<Rightarrow> real \<Rightarrow> http_result \<Rightarrow> string + BalloonsPayload" where
  "fetchLatestBalloonsWithMeta stringify hoursAgo res =
     (case res of
        NetworkError msg \<Rightarrow> Inl msg
      | HttpResponse status body \<Rightarrow>
          if \<not> (200 \<le> status \<and> status \<le> 299) then Inl (''API fetch failed: '' @ showNat status)
          else
            (case body of
               Inl msg \<Rightarrow> Inl msg
             | Inr raw \<Rightarrow>
                 (case extractLatestPositions stringify raw of
                    Inl msg \<Rightarrow> Inl msg
                  | Inr pts \<Rightarrow>
                      Inr \<lparr>payload_hoursAgo =
                             (case (if isRecord raw then asNumber (field raw ''hoursAgo'') else None) of
                                Some h \<Rightarrow> h | None \<Rightarrow> hoursAgo),
                           payload_source = resolveSource raw,
                           payload_cacheAgeSeconds =
                             (if isRecord raw then asNumber (field raw ''cacheAgeSeconds'') else None),
                           points = pts\<rparr>)))"

section \<open>Identity tracker (components/MapboxBalloons)\<close>

definition toRad :: "real \<Rightarrow> real" where
  "toRad d = (d * pi) / 180"

text \<open>
  The haversine distance. On doubles \<open>Math.sqrt\<close> of a negative number is \<open>NaN\<close>, and
  every comparison with \<open>NaN\<close> is false; the result \<open>None\<close> stands for \<open>NaN\<close>. The
  argument of the square root is negative only for latitudes outside \<open>[-90, 90]\<close>.
\<close>

definition haversineKm :: "real \<Rightarrow> real \<Rightarrow> real \<Rightarrow> real \<Rightarrow> real option" where
  "haversineKm aLat aLon bLat bLon =
     (let R = 6371;
          dLat = toRad (bLat - aLat);
          dLon = toRad (bLon - aLon);
          s1 = sin (dLat / 2);
          s2 = sin (dLon / 2);
          q = s1 * s1 + cos (toRad aLat) * cos (toRad bLat) * s2 * s2
      in if q < 0 then None else Some (2 * R * arcsin (min 1 (sqrt q))))"

text \<open>
  The sums \<open>lon + 180\<close> and \<open>lat + 90\<close> are sums of doubles, and IEEE 754 fixes their
  value: the exact sum rounded to the nearest double, a tie going to the even significand.
  \<open>rne\<close> rounds a real to the nearest integer, ties to even; \<open>ulp x\<close> is the distance of
  neighbouring doubles around \<open>x\<close>, with 53 bits of significand and the smallest exponent
  -1022; \<open>fl x\<close> is the double nearest to \<open>x\<close>. The sum of a finite double and 90 or
  180 does not overflow. Which cell a point falls in depends on this rounding, so it is
  part of the model. \<open>Math.sin\<close>, \<open>Math.cos\<close>, \<open>Math.asin\<close> and \<open>Math.sqrt\<close> are
  approximated as the implementation sees fit, and the distance is taken over the reals.
\<close>

definition rne :: "real \<Rightarrow> int" where
  "rne y =
     (let f = \<lfloor>y\<rfloor>; r = y - of_int f
      in if r < 1 / 2 then f else if 1 / 2 < r then f + 1 else if even f then f else f + 1)"

definition ulp :: "real \<Rightarrow> real" where
  "ulp x = 2 powr (of_int (max \<lfloor>log 2 \<bar>x\<bar>\<rfloor> (- 1022)) - 52)"

definition fl :: "real \<Rightarrow> real" where
  "fl x = (if x = 0 then 0 else ulp x * of_int (rne (x / ulp x)))"

definition BIN_DEG :: real where
  "BIN_DEG = 1"

text \<open>
  A bin key is the string \<open>`${y},${x}`\<close> of two integers, which determines the pair and is
  determined by it; the pair \<open>(y, x)\<close> stands for the string. Dividing by 1 and
  \<open>Math.floor\<close> are exact, and so are \<open>y0 + dy\<close> and \<open>x0 + dx\<close> on the cell indices of
  canonical points, which lie between 0 and 360.
\<close>

type_synonym binkey = "int \<times> int"

definition binKey :: "real \<Rightarrow> real \<Rightarrow> binkey" where
  "binKey la lo =
     (let x = \<lfloor>fl (lo + 180) / BIN_DEG\<rfloor>; y = \<lfloor>fl (la + 90) / BIN_DEG\<rfloor> in (y, x))"

definition neighborBinKeys :: "real \<Rightarrow> real \<Rightarrow> binkey list" where
  "neighborBinKeys la lo =
     (let x0 = \<lfloor>fl (lo + 180) / BIN_DEG\<rfloor>; y0 = \<lfloor>fl (la + 90) / BIN_DEG\<rfloor>
      in concat (map (\<lambda>dy. map (\<lambda>dx. (y0 + dy, x0 + dx)) [-1, 0, 1]) [-1, 0, 1]))"

record TrackedPoint = BalloonPoint +
  ident :: string
  idx :: nat

text \<open>An entry of a bin: \<open>{ id, lat, lon }\<close>.\<close>

type_synonym candidate = "string \<times> real \<times> real"

text \<open>
  The two refs \<open>nextIdRef\<close> and \<open>prevByIdRef\<close>. A JavaScript \<open>Map\<close> iterates in insertion
  order and \<open>set\<close> on a present key keeps its place, which is \<open>AList.update\<close> on an
  association list. The counter is idealised as an unbounded natural number.
\<close>

record tracker =
  nextId :: nat
  prevById :: "(string \<times> real \<times> real) list"

definition initialTracker :: tracker where
  "initialTracker = \<lparr>nextId = 1, prevById = []\<rparr>"

text \<open>The body of the loop that fills the bins, and the loop.\<close>

definition addToBin :: "string \<times> real \<times> real \<Rightarrow> (binkey \<rightharpoonup> candidate list) \<Rightarrow> (binkey \<rightharpoonup> candidate list)" where
  "addToBin e bins =
     (case e of (i, la, lo) \<Rightarrow>
        let k = binKey la lo;
            arr = (case bins k of Some a \<Rightarrow> a | None \<Rightarrow> [])
        in bins(k \<mapsto> arr @ [(i, la, lo)]))"

definition buildBins :: "(string \<times> real \<times> real) list \<Rightarrow> (binkey \<rightharpoonup> candidate list)" where
  "buildBins prev = fold addToBin prev Map.empty"

definition MATCH_KM :: real where
  "MATCH_KM = 150"

text \<open>
  \<open>bestId\<close> and \<open>bestKm\<close> start as \<open>null\<close> and \<open>Infinity\<close> and are only assigned together,
  to a finite distance: \<open>None\<close> is the initial pair.
\<close>

definition scanCandidate ::
    "BalloonPoint \<Rightarrow> string set \<Rightarrow> candidate \<Rightarrow> (string \<times> real) option \<Rightarrow> (string \<times> real) option" where
  "scanCandidate p usedPrevIds c best =
     (case c of (cid, cla, clo) \<Rightarrow>
        if cid \<in> usedPrevIds then best
        else
          (case haversineKm (lat p) (lon p) cla clo of
             None \<Rightarrow> best
           | Some km \<Rightarrow>
               if (case best of None \<Rightarrow> True | Some (_, bestKm) \<Rightarrow> km < bestKm)
               then Some (cid, km) else best))"

definition scanBin ::
    "BalloonPoint \<Rightarrow> string set \<Rightarrow> (binkey \<rightharpoonup> candidate list) \<Rightarrow> binkey
       \<Rightarrow> (string \<times> real) option \<Rightarrow> (string \<times> real) option" where
  "scanBin p usedPrevIds bins nk best =
     (case bins nk of
        None \<Rightarrow> best
      | Some candidates \<Rightarrow> fold (scanCandidate p usedPrevIds) candidates best)"

definition findBest ::
    "BalloonPoint \<Rightarrow> string set \<Rightarrow> (binkey \<rightharpoonup> candidate list) \<Rightarrow> (string \<times> real) option" where
  "findBest p usedPrevIds bins =
     fold (scanBin p usedPrevIds bins) (neighborBinKeys (lat p) (lon p)) None"

definition tracked :: "string \<Rightarrow> nat \<Rightarrow> BalloonPoint \<Rightarrow> TrackedPoint" where
  "tracked i k p = \<lparr>lat = lat p, lon = lon p, meta = meta p, ident = i, idx = k\<rparr>"

text \<open>
  The matching loop over \<open>points\<close> from index \<open>k\<close> on; its state is \<open>usedPrevIds\<close>, the
  counter and \<open>out\<close>. In \<open>bestId && bestKm <= MATCH_KM\<close> an empty string is falsy.
\<close>

fun assignLoop ::
    "(binkey \<rightharpoonup> candidate list) \<Rightarrow> BalloonPoint list \<Rightarrow> nat
       \<Rightarrow> string set \<times> nat \<times> TrackedPoint list \<Rightarrow> string set \<times> nat \<times> TrackedPoint list" where
  "assignLoop bins [] k st = st"
| "assignLoop bins (p # ps) k (usedPrevIds, nxt, out) =
     (case findBest p usedPrevIds bins of
        Some (bestId, bestKm) \<Rightarrow>
          if bestId \<noteq> [] \<and> bestKm \<le> MATCH_KM
          then assignLoop bins ps (k + 1)
                 (insert bestId usedPrevIds, nxt, out @ [tracked bestId k p])
          else assignLoop bins ps (k + 1)
                 (usedPrevIds, nxt + 1, out @ [tracked (''b'' @ showNat nxt) k p])
      | None \<Rightarrow>
          assignLoop bins ps (k + 1)
            (usedPrevIds, nxt + 1, out @ [tracked (''b'' @ showNat nxt) k p]))"

definition assignStableIds :: "tracker \<Rightarrow> BalloonPoint list \<Rightarrow> tracker \<times> TrackedPoint list" where
  "assignStableIds st pts =
     (let prevById = prevById st;
          bins = buildBins prevById;
          (usedPrevIds, nxt, out) = assignLoop bins pts 0 ({}, nextId st, []);
          newPrev = fold (\<lambda>p m. AList.update (ident p) (lat p, lon p) m) out []
      in (\<lparr>nextId = nxt, prevById = newPrev\<rparr>, out))"


text \<open>
  The component state that a poll reads and writes: the two tracker refs, the in-flight
  lock and the status shown to the user. The GeoJSON handed to the map is built from the
  returned list and touches none of these, so it is left out.
\<close>

record component = tracker +
  inFlight :: bool
  error :: "string option"
  balloonsLoading :: bool
  freshness :: "(real \<times> source \<times> real option \<times> nat \<times> string) option"
  lastUpdatedIso :: "string option"

text \<open>
  One run of \<open>refreshBalloons\<close>, given what the request produces and the time stamp
  \<open>new Date().toISOString()\<close> yields. \<open>catch\<close> stores the message of the error thrown.
\<close>

definition refreshBalloons ::
    "(json \<Rightarrow> string) \<Rightarrow> http_result \<Rightarrow> string \<Rightarrow> component \<Rightarrow> component" where
  "refreshBalloons stringify res nowIso st =
     (if inFlight st then st
      else
        let st1 = st\<lparr>inFlight := True, balloonsLoading := True, error := None\<rparr> in
        (case fetchLatestBalloonsWithMeta stringify 0 res of
           Inl msg \<Rightarrow> st1\<lparr>error := Some msg, balloonsLoading := False, inFlight := False\<rparr>
         | Inr payload \<Rightarrow>
             let (tr, stabilized) = assignStableIds (tracker.truncate st1) (points payload) in
             st1\<lparr>nextId := nextId tr,
                 prevById := prevById tr,
                 freshness := Some (payload_hoursAgo payload, payload_source payload,
                                    payload_cacheAgeSeconds payload, length stabilized, nowIso),
                 lastUpdatedIso := Some nowIso,
                 balloonsLoading := False,
                 inFlight := False\<rparr>))"

section \<open>Snapshot endpoint (api/balloons)\<close>

record CacheEntry =
  timestampMs :: int
  hoursAgo :: int
  data :: json

record Response =
  status :: nat
  body :: json

definition clampHoursAgo :: "jsnum \<Rightarrow> int" where
  "clampHoursAgo v = (case v of JFinite r \<Rightarrow> max 0 (min 23 \<lfloor>r\<rfloor>) | _ \<Rightarrow> 0)"

text \<open>\<open>Math.round\<close> rounds to the nearest integer, a half upwards.\<close>

definition mathRound :: "real \<Rightarrow> int" where
  "mathRound x = \<lfloor>x + 1 / 2\<rfloor>"

text \<open>JavaScript truthiness, as the test \<open>globalThis.__balloonCache?.data\<close> applies it.\<close>

fun truthy :: "json \<Rightarrow> bool" where
  "truthy JUndefined = False"
| "truthy JNull = False"
| "truthy (JBool b) = b"
| "truthy (JNum (JFinite r)) = (r \<noteq> 0)"
| "truthy (JNum JNaN) = False"
| "truthy (JNum _) = True"
| "truthy (JStr s) = (s \<noteq> [])"
| "truthy (JArr _) = True"
| "truthy (JObj _) = True"

text \<open>
  The loop over the fallback chain. \<open>upstream h\<close> is what \<open>fetchUpstream(h)\<close> does in this
  request: it throws an error (its message) or returns the parsed body. The loop returns
  at the first success and otherwise remembers the last error.
\<close>

fun tryCandidates ::
    "(int \<Rightarrow> string + json) \<Rightarrow> int list \<Rightarrow> string option \<Rightarrow> string option + int \<times> json" where
  "tryCandidates upstream [] lastError = Inl lastError"
| "tryCandidates upstream (h # hs) lastError =
     (case upstream h of
        Inr d \<Rightarrow> Inr (h, d)
      | Inl e \<Rightarrow> tryCandidates upstream hs (Some e))"

definition jsInt :: "int \<Rightarrow> json" where
  "jsInt n = JNum (JFinite (of_int n))"

text \<open>
  The handler: the number parsed from the query, the clock \<open>Date.now()\<close> and the global
  cache slot go in, the response and the new content of the slot come out.
\<close>

definition noData :: "string option \<Rightarrow> Response" where
  "noData lastError =
     \<lparr>status = 502,
      body = JObj [(''error'', JStr ''No upstream data available and no cached fallback present.''),
                   (''details'', JStr (case lastError of Some m \<Rightarrow> m | None \<Rightarrow> ''null''))]\<rparr>"

definition GET ::
    "(int \<Rightarrow> string + json) \<Rightarrow> int \<Rightarrow> jsnum \<Rightarrow> CacheEntry option \<Rightarrow> Response \<times> CacheEntry option" where
  "GET upstream now v cache =
     (let requestedHoursAgo = clampHoursAgo v;
          candidates = [requestedHoursAgo..23]
      in case tryCandidates upstream candidates None of
           Inr (h, d) \<Rightarrow>
             (\<lparr>status = 200,
               body = JObj [(''hoursAgo'', jsInt h), (''source'', JStr ''upstream''), (''data'', d)]\<rparr>,
              Some \<lparr>timestampMs = now, hoursAgo = h, data = d\<rparr>)
         | Inl lastError \<Rightarrow>
             (case cache of
                Some c \<Rightarrow>
                  if truthy (data c) then
                    let ageMs = now - timestampMs c in
                    (\<lparr>status = 200,
                      body = JObj [(''hoursAgo'', jsInt (hoursAgo c)),
                                   (''source'', JStr ''cache''),
                                   (''cacheAgeSeconds'', jsInt (mathRound (of_int ageMs / 1000))),
                                   (''data'', data c)]\<rparr>,
                     cache)
                  else (noData lastError, cache)
              | None \<Rightarrow> (noData lastError, cache)))"

section \<open>Properties the theorems refer to\<close>

text \<open>A canonical point has passed the range validation of the normalizer.\<close>

definition canonical :: "real \<Rightarrow> real \<Rightarrow> bool" where
  "canonical la lo = (\<bar>la\<bar> \<le> 90 \<and> \<bar>lo\<bar> \<le> 180)"

definition mintedId :: "nat \<Rightarrow> string" where
  "mintedId n = ''b'' @ showNat n"

text \<open>
  What holds of the tracker between polls: the keys of the table are distinct (it is a
  \<open>Map\<close>), each of them was minted from a counter value already used, and the positions
  are canonical.
\<close>

definition trackerInv :: "'a tracker_scheme \<Rightarrow> bool" where
  "trackerInv st =
     (1 \<le> nextId st
      \<and> distinct (map fst (prevById st))
      \<and> (\<forall>(i, la, lo) \<in> set (prevById st).
            i \<in> mintedId ` {1 ..< nextId st} \<and> canonical la lo))"

text \<open>
  The notions of the specification, stated on their own. The grid has cells of one degree,
  keyed by \<open>(floor (lat + 90), floor (lon + 180))\<close>, the sums being sums of doubles. A
  previous position is in the nine-cell neighbourhood of a point when its cell is the cell
  of the point or one of the eight cells around it. The great-circle distance is the
  haversine formula on a sphere of radius 6371 km.
\<close>

definition gridCell :: "real \<Rightarrow> real \<Rightarrow> int \<times> int" where
  "gridCell la lo = (\<lfloor>fl (la + 90)\<rfloor>, \<lfloor>fl (lo + 180)\<rfloor>)"

definition inNineCells :: "BalloonPoint \<Rightarrow> real \<Rightarrow> real \<Rightarrow> bool" where
  "inNineCells p la lo =
     (\<bar>fst (gridCell la lo) - fst (gridCell (lat p) (lon p))\<bar> \<le> 1
      \<and> \<bar>snd (gridCell la lo) - snd (gridCell (lat p) (lon p))\<bar> \<le> 1)"

definition greatCircleKm :: "real \<Rightarrow> real \<Rightarrow> real \<Rightarrow> real \<Rightarrow> real" where
  "greatCircleKm lat1 lon1 lat2 lon2 =
     (let phi1 = lat1 * pi / 180;
          phi2 = lat2 * pi / 180;
          dphi = (lat2 - lat1) * pi / 180;
          dlam = (lon2 - lon1) * pi / 180;
          h = (sin (dphi / 2))\<^sup>2 + cos phi1 * cos phi2 * (sin (dlam / 2))\<^sup>2
      in 2 * 6371 * arcsin (sqrt h))"

text \<open>
  The previous points a current point may claim: those in its nine-cell neighbourhood
  whose identifier has not been claimed in this poll.
\<close>

definition unclaimedNearby ::
    "(string \<times> real \<times> real) list \<Rightarrow> string set \<Rightarrow> BalloonPoint \<Rightarrow> candidate list" where
  "unclaimedNearby prev used p =
     filter (\<lambda>(i, la, lo). i \<notin> used \<and> inNineCells p la lo) prev"

text \<open>
  The matching rule in the words of the specification, as a check of an output list
  against the points from index \<open>k\<close> on, the set of claimed identifiers and the counter:
  either the identifier is that of an unclaimed nearby previous point of minimum
  great-circle distance, that distance is at most 150 km and the identifier is claimed
  from then on, or no unclaimed nearby previous point is within 150 km and the identifier
  is \<open>b\<close> followed by the counter, which goes up by one. \<open>n'\<close> is the counter after the
  poll.
\<close>

fun followsSpec ::
    "(string \<times> real \<times> real) list \<Rightarrow> string set \<Rightarrow> nat \<Rightarrow> nat
       \<Rightarrow> BalloonPoint list \<Rightarrow> TrackedPoint list \<Rightarrow> nat \<Rightarrow> bool" where
  "followsSpec prev used n k [] out n' = (out = [] \<and> n' = n)"
| "followsSpec prev used n k (p # ps) [] n' = False"
| "followsSpec prev used n k (p # ps) (t # ts) n' =
     (t = tracked (ident t) k p
      \<and> ((\<exists>(c, la, lo) \<in> set (unclaimedNearby prev used p).
             (\<forall>(c', la', lo') \<in> set (unclaimedNearby prev used p).
                 greatCircleKm (lat p) (lon p) la lo \<le> greatCircleKm (lat p) (lon p) la' lo')
             \<and> greatCircleKm (lat p) (lon p) la lo \<le> 150
             \<and> ident t = c
             \<and> followsSpec prev (insert c used) n (k + 1) ps ts n')
          \<or> ((\<forall>(c, la, lo) \<in> set (unclaimedNearby prev used p).
                 150 < greatCircleKm (lat p) (lon p) la lo)
              \<and> ident t = ''b'' @ showNat n
              \<and> followsSpec prev used (n + 1) (k + 1) ps ts n')))"

section \<open>Auxiliary notions for the proofs\<close>

definition binList :: "(binkey \<rightharpoonup> candidate list) \<Rightarrow> binkey \<Rightarrow> candidate list" where
  "binList bins k = (case bins k of Some a \<Rightarrow> a | None \<Rightarrow> [])"

definition inCell :: "binkey \<Rightarrow> candidate \<Rightarrow> bool" where
  "inCell k c = (case c of (i, la, lo) \<Rightarrow> binKey la lo = k)"

definition eligible :: "BalloonPoint \<Rightarrow> string set \<Rightarrow> candidate list \<Rightarrow> (string \<times> real) set" where
  "eligible p used cs =
     {(c, km). \<exists>la lo. (c, la, lo) \<in> set cs \<and> c \<notin> used \<and> haversineKm (lat p) (lon p) la lo = Some km}"

definition isMin :: "(string \<times> real) set \<Rightarrow> (string \<times> real) option \<Rightarrow> bool" where
  "isMin S r = (case r of None \<Rightarrow> S = {} | Some (c, km) \<Rightarrow> (c, km) \<in> S \<and> (\<forall>(c', km') \<in> S. km \<le> km'))"

definition scanned :: "(string \<times> real \<times> real) list \<Rightarrow> BalloonPoint \<Rightarrow> candidate list" where
  "scanned prev p = concat (map (\<lambda>nk. filter (inCell nk) prev) (neighborBinKeys (lat p) (lon p)))"


section \<open>Example payloads\<close>

definition ex_flat :: json where
  "ex_flat = JArr [JArr [JNum (JFinite 1), JNum (JFinite 2)], JArr [JNum (JFinite 3), JNum (JFinite 4)]]"

definition ex_tracks :: json where
  "ex_tracks = JArr [JArr [JArr [JNum (JFinite 1), JNum (JFinite 2)], JArr [JNum (JFinite 3), JNum (JFinite 4)]],
                     JArr [JArr [JNum (JFinite 5), JNum (JFinite 6)]]]"


definition ex_ragged :: json where
  "ex_ragged = JArr [JArr [JArr [JNum (JFinite 1), JNum (JFinite 2)]],
                     JArr [],
                     JStr ''gap'',
                     JArr [JArr [JNum (JFinite 5), JNum (JFinite 6)], JArr [JNum (JFinite 7), JNum (JFinite 800)]],
                     JArr [JArr [JNum (JFinite 9), JNum (JFinite 10)]]]"

section \<open>Example polls\<close>

text \<open>
  Three trackers after a first poll that minted \<open>b1\<close>, each with one point of a second
  poll: across the 180 degree meridian, at the pole, and ten degrees of longitude apart
  at latitude 89.9.
\<close>

definition st_dateline :: tracker where
  "st_dateline = \<lparr>nextId = 2, prevById = [(''b1'', 0, 180)]\<rparr>"

definition pt_dateline :: BalloonPoint where
  "pt_dateline = \<lparr>lat = 0, lon = - 180, meta = None\<rparr>"

definition st_pole :: tracker where
  "st_pole = \<lparr>nextId = 2, prevById = [(''b1'', 90, 0)]\<rparr>"

definition pt_pole :: BalloonPoint where
  "pt_pole = \<lparr>lat = 90, lon = 100, meta = None\<rparr>"

definition st_arctic :: tracker where
  "st_arctic = \<lparr>nextId = 2, prevById = [(''b1'', 899 / 10, 1 / 2)]\<rparr>"

definition pt_arctic :: BalloonPoint where
  "pt_arctic = \<lparr>lat = 899 / 10, lon = 21 / 2, meta = None\<rparr>"








text \<open>A tracker and a poll in which one point stays and one is far away.\<close>

definition st_two :: tracker where
  "st_two = \<lparr>nextId = 3, prevById = [(''b1'', 10, 20), (''b2'', 40, 50)]\<rparr>"

definition pts_two :: "BalloonPoint list" where
  "pts_two = [\<lparr>lat = 60, lon = 60, meta = None\<rparr>, \<lparr>lat = 10, lon = 20, meta = Some 5\<rparr>]"

text \<open>A component between polls, with the table of \<open>st_two\<close>, and two responses.\<close>

definition comp_two :: component where
  "comp_two = \<lparr>nextId = 3, prevById = [(''b1'', 10, 20), (''b2'', 40, 50)],
                inFlight = False, error = None, balloonsLoading = False,
                freshness = None, lastUpdatedIso = None\<rparr>"

definition res_ok :: http_result where
  "res_ok = HttpResponse 200 (Inr (JObj [(''hoursAgo'', JNum (JFinite 0)),
                                         (''source'', JStr ''upstream''),
                                         (''data'', JArr [JArr [JNum (JFinite 60), JNum (JFinite 60)],
                                                          JArr [JNum (JFinite 10), JNum (JFinite 20), JNum (JFinite 5)]])]))"

definition res_bad_shape :: http_result where
  "res_bad_shape = HttpResponse 200 (Inr (JObj [(''data'', JStr ''soon'')]))"

section \<open>Example requests\<close>


definition up_down :: "int \<Rightarrow> string + json" where
  "up_down h = Inl ''Upstream down''"

definition up_null :: "int \<Rightarrow> string + json" where
  "up_null h = Inr JNull"

definition cache_good :: CacheEntry where
  "cache_good = \<lparr>timestampMs = 1000, hoursAgo = 2, data = JArr []\<rparr>"

definition cache_null :: CacheEntry where
  "cache_null = \<lparr>timestampMs = 1000, hoursAgo = 2, data = JNull\<rparr>"

section \<open>Identifiers\<close>

lemma digit_cases: "n < 10 \<Longrightarrow> n \<in> {0,1,2,3,4,5,6,7,8,9::nat}"
  by auto

lemma digitChar_inj: "a < 10 \<Longrightarrow> b < 10 \<Longrightarrow> digitChar a = digitChar b \<Longrightarrow> a = b"
proof -
  assume a: "a < 10" and b: "b < 10" and e: "digitChar a = digitChar b"
  from digit_cases [OF a] digit_cases [OF b] e show ?thesis
    unfolding digitChar_def by (elim insertE emptyE) simp_all
qed

lemma showNat_nonempty: "showNat n \<noteq> []"
  by (subst showNat.simps) simp

lemma showNat_inj: "showNat n = showNat m \<Longrightarrow> n = m"
proof (induction n arbitrary: m rule: showNat.induct)
  case (1 n)
  show ?case
  proof (cases "n < 10")
    case True
    show ?thesis
    proof (cases "m < 10")
      case m: True
      from "1.prems" True m have "digitChar n = digitChar m"
        by (simp add: showNat.simps [of n] showNat.simps [of m])
      with True m show ?thesis by (rule digitChar_inj)
    next
      case False
      with "1.prems" True have "[digitChar n] = showNat (m div 10) @ [digitChar (m mod 10)]"
        by (simp add: showNat.simps [of n] showNat.simps [of m])
      then have "showNat (m div 10) = []" by simp
      then show ?thesis by (simp add: showNat_nonempty)
    qed
  next
    case False
    show ?thesis
    proof (cases "m < 10")
      case True
      with "1.prems" False have "showNat (n div 10) @ [digitChar (n mod 10)] = [digitChar m]"
        by (simp add: showNat.simps [of n] showNat.simps [of m])
      then have "showNat (n div 10) = []" by simp
      then show ?thesis by (simp add: showNat_nonempty)
    next
      case m: False
      with "1.prems" False have
        "showNat (n div 10) @ [digitChar (n mod 10)] = showNat (m div 10) @ [digitChar (m mod 10)]"
        by (simp add: showNat.simps [of n] showNat.simps [of m])
      then have a: "showNat (n div 10) = showNat (m div 10)" and b: "digitChar (n mod 10) = digitChar (m mod 10)"
        by simp_all
      from "1.IH" [OF False a] have d: "n div 10 = m div 10" .
      from b have r: "n mod 10 = m mod 10" by (intro digitChar_inj) simp_all
      from d r show ?thesis by (metis div_mult_mod_eq)
    qed
  qed
qed

lemma mintedId_inj: "mintedId n = mintedId m \<Longrightarrow> n = m"
  by (simp add: mintedId_def showNat_inj)

lemma mintedId_nonempty: "mintedId n \<noteq> []"
  by (simp add: mintedId_def)


section \<open>Rounding to a double\<close>

lemma rne_bounds:
  assumes "of_int m \<le> y" and "y \<le> of_int n"
  shows "m \<le> rne y \<and> rne y \<le> n"
proof -
  have mf: "m \<le> \<lfloor>y\<rfloor>" using assms(1) by (simp add: le_floor_iff)
  have fn: "\<lfloor>y\<rfloor> \<le> n" using assms(2) by (simp add: floor_le_iff)
  have up: "0 < y - of_int \<lfloor>y\<rfloor> \<Longrightarrow> \<lfloor>y\<rfloor> + 1 \<le> n"
  proof -
    assume "0 < y - of_int \<lfloor>y\<rfloor>"
    then have "of_int \<lfloor>y\<rfloor> < y" by simp
    with assms(2) have "(of_int \<lfloor>y\<rfloor> :: real) < of_int n" by linarith
    then show ?thesis by simp
  qed
  show ?thesis
    using mf fn up by (auto simp: rne_def Let_def)
qed

lemma ulp_binade:
  assumes "2 ^ k \<le> \<bar>x\<bar>" and "\<bar>x\<bar> < 2 ^ (k + 1)"
  shows "ulp x = 2 ^ k / 2 ^ 52"
proof -
  have pos: "0 < \<bar>x\<bar>" using assms(1) by (smt (verit) zero_less_power)
  have "(2::real) powr (of_int (int k)) \<le> \<bar>x\<bar> \<and> \<bar>x\<bar> < 2 powr (of_int (int k + 1))"
    using assms by (simp add: powr_realpow powr_add)
  then have "\<lfloor>log 2 \<bar>x\<bar>\<rfloor> = int k"
    using floor_log_eq_powr_iff [of "\<bar>x\<bar>" 2 "int k"] pos by simp
  then have "ulp x = 2 powr (real k - 52)" by (simp add: ulp_def)
  also have "\<dots> = 2 powr (real k) / 2 powr 52" by (simp add: powr_diff)
  also have "\<dots> = 2 ^ k / 2 ^ 52" by (simp add: powr_realpow)
  finally show ?thesis .
qed

lemma fl_between:
  assumes "2 ^ k \<le> \<bar>x\<bar>" and "\<bar>x\<bar> < 2 ^ (k + 1)"
      and a: "a = of_int m * (2 ^ k / 2 ^ 52)" and b: "b = of_int n * (2 ^ k / 2 ^ 52)"
      and "a \<le> x" and "x \<le> b"
  shows "a \<le> fl x \<and> fl x \<le> b"
proof -
  let ?u = "(2::real) ^ k / 2 ^ 52"
  have u: "ulp x = ?u" using assms(1,2) by (rule ulp_binade)
  have up: "0 < ?u" by simp
  have x0: "x \<noteq> 0" using assms(1) by (smt (verit) zero_less_power)
  have "of_int m \<le> x / ?u" using assms(5) up unfolding a by (simp add: pos_le_divide_eq)
  moreover have "x / ?u \<le> of_int n" using assms(6) up unfolding b by (simp add: pos_divide_le_eq)
  ultimately have r: "m \<le> rne (x / ?u) \<and> rne (x / ?u) \<le> n" by (rule rne_bounds)
  have f: "fl x = ?u * of_int (rne (x / ?u))" using x0 by (simp add: fl_def u)
  have "of_int m * ?u \<le> of_int (rne (x / ?u)) * ?u"
    using r up by (intro mult_right_mono) simp_all
  moreover have "of_int (rne (x / ?u)) * ?u \<le> of_int n * ?u"
    using r up by (intro mult_right_mono) simp_all
  ultimately show ?thesis unfolding f a b by (simp add: mult.commute)
qed

lemma fl_dyadic:
  assumes "2 ^ k \<le> \<bar>x\<bar>" and "\<bar>x\<bar> < 2 ^ (k + 1)" and "x = of_int m * (2 ^ k / 2 ^ 52)"
  shows "fl x = x"
  using fl_between [OF assms(1,2) assms(3) assms(3)] by simp

lemma fl_0: "fl 0 = 0"
  by (simp add: fl_def)

lemma fl_90: "fl 90 = 90"
  by (rule fl_dyadic [of 6 _ "90 * 2 ^ 46"]) simp_all

lemma fl_100: "fl 100 = 100"
  by (rule fl_dyadic [of 6 _ "100 * 2 ^ 46"]) simp_all

lemma fl_101: "fl 101 = 101"
  by (rule fl_dyadic [of 6 _ "101 * 2 ^ 46"]) simp_all

lemma fl_130: "fl 130 = 130"
  by (rule fl_dyadic [of 7 _ "130 * 2 ^ 45"]) simp_all

lemma fl_150: "fl 150 = 150"
  by (rule fl_dyadic [of 7 _ "150 * 2 ^ 45"]) simp_all

lemma fl_180: "fl 180 = 180"
  by (rule fl_dyadic [of 7 _ "180 * 2 ^ 45"]) simp_all

lemma fl_200: "fl 200 = 200"
  by (rule fl_dyadic [of 7 _ "200 * 2 ^ 45"]) simp_all

lemma fl_230: "fl 230 = 230"
  by (rule fl_dyadic [of 7 _ "230 * 2 ^ 45"]) simp_all

lemma fl_240: "fl 240 = 240"
  by (rule fl_dyadic [of 7 _ "240 * 2 ^ 45"]) simp_all

lemma fl_280: "fl 280 = 280"
  by (rule fl_dyadic [of 8 _ "280 * 2 ^ 44"]) simp_all

lemma fl_360: "fl 360 = 360"
  by (rule fl_dyadic [of 8 _ "360 * 2 ^ 44"]) simp_all

lemma fl_361_2: "fl (361 / 2) = (361 / 2)"
  by (rule fl_dyadic [of 7 _ "361 * 2 ^ 44"]) simp_all

lemma fl_381_2: "fl (381 / 2) = (381 / 2)"
  by (rule fl_dyadic [of 7 _ "381 * 2 ^ 44"]) simp_all

lemma fl_201_2: "fl (201 / 2) = (201 / 2)"
  by (rule fl_dyadic [of 6 _ "201 * 2 ^ 45"]) simp_all

lemma fl_203_2: "fl (203 / 2) = (203 / 2)"
  by (rule fl_dyadic [of 6 _ "203 * 2 ^ 45"]) simp_all

lemma floor_fl_arctic: "\<lfloor>fl (1799 / 10)\<rfloor> = 179"
proof -
  have "179 \<le> fl (1799 / 10) \<and> fl (1799 / 10) \<le> 2879 / 16"
    by (rule fl_between [of 7 _ _ "179 * 2 ^ 45" _ "2879 * 2 ^ 41"]) simp_all
  then show ?thesis by (simp add: floor_eq_iff)
qed



lemmas fl_values =
  fl_0 fl_90 fl_100 fl_101 fl_130 fl_150 fl_180 fl_200 fl_230 fl_240 fl_280 fl_360 fl_361_2 fl_381_2 fl_201_2 fl_203_2 floor_fl_arctic

section \<open>The bins and the nearest-candidate search\<close>

lemma binList_addToBin:
  "binList (addToBin e bins) k = binList bins k @ filter (inCell k) [e]"
  by (cases e) (simp add: addToBin_def binList_def inCell_def Let_def)

lemma binList_fold:
  "binList (fold addToBin prev bins) k = binList bins k @ filter (inCell k) prev"
proof (induction prev arbitrary: bins)
  case Nil
  show ?case by simp
next
  case (Cons e prev)
  have "binList (fold addToBin (e # prev) bins) k = binList (addToBin e bins) k @ filter (inCell k) prev"
    by (simp add: Cons.IH)
  also have "\<dots> = binList bins k @ filter (inCell k) (e # prev)"
    by (simp add: binList_addToBin)
  finally show ?case .
qed

lemma binList_buildBins: "binList (buildBins prev) k = filter (inCell k) prev"
proof -
  have "binList Map.empty k = []" by (simp add: binList_def)
  then show ?thesis by (simp add: buildBins_def binList_fold)
qed

lemma scanBin_binList:
  "scanBin p used bins nk best = fold (scanCandidate p used) (binList bins nk) best"
  by (simp add: scanBin_def binList_def split: option.splits)

lemma fold_scanBin:
  "fold (scanBin p used bins) nks best
   = fold (scanCandidate p used) (concat (map (binList bins) nks)) best"
  by (induction nks arbitrary: best) (simp_all add: scanBin_binList)

lemma findBest_scanned:
  "findBest p used (buildBins prev) = fold (scanCandidate p used) (scanned prev p) None"
  by (simp add: findBest_def fold_scanBin scanned_def binList_buildBins cong: map_cong)

lemma set_scanned:
  "set (scanned prev p)
   = {(i, la, lo). (i, la, lo) \<in> set prev \<and> binKey la lo \<in> set (neighborBinKeys (lat p) (lon p))}"
  by (auto simp: scanned_def inCell_def)

lemma eligible_Cons:
  "eligible p used (c # cs) = eligible p used [c] \<union> eligible p used cs"
  by (auto simp: eligible_def)

lemma isMin_step:
  assumes "isMin S best"
  shows "isMin (S \<union> eligible p used [c]) (scanCandidate p used c best)"
proof -
  obtain i la lo where c: "c = (i, la, lo)" by (cases c)
  show ?thesis
  proof (cases "i \<in> used")
    case True
    then have "eligible p used [c] = {}" by (auto simp: eligible_def c)
    with assms True show ?thesis by (simp add: scanCandidate_def c)
  next
    case False
    show ?thesis
    proof (cases "haversineKm (lat p) (lon p) la lo")
      case None
      then have "eligible p used [c] = {}" by (auto simp: eligible_def c)
      with assms False None show ?thesis by (simp add: scanCandidate_def c)
    next
      case (Some km)
      with False have e: "eligible p used [c] = {(i, km)}" by (auto simp: eligible_def c)
      show ?thesis
      proof (cases best)
        case None
        with assms have "S = {}" by (simp add: isMin_def)
        with None False Some e show ?thesis by (simp add: scanCandidate_def c isMin_def)
      next
        case (Some bst)
        obtain bi bk where b: "bst = (bi, bk)" by (cases bst)
        from assms Some b have m: "(bi, bk) \<in> S" "\<forall>(c', km') \<in> S. bk \<le> km'"
          by (simp_all add: isMin_def)
        have hv: "haversineKm (lat p) (lon p) la lo = Some km" by fact
        show ?thesis
        proof (cases "km < bk")
          case True
          have r: "scanCandidate p used c best = Some (i, km)"
            using True False hv Some b by (simp add: scanCandidate_def c)
          have "\<forall>(c', km') \<in> S. km \<le> km'"
            using m(2) True by fastforce
          then show ?thesis
            unfolding r e isMin_def by simp
        next
          case nl: False
          have r: "scanCandidate p used c best = Some (bi, bk)"
            using nl False hv Some b by (simp add: scanCandidate_def c)
          from nl have "bk \<le> km" by simp
          with m show ?thesis
            unfolding r e isMin_def by simp
        qed
      qed
    qed
  qed
qed

lemma isMin_fold:
  "isMin S best \<Longrightarrow> isMin (S \<union> eligible p used cs) (fold (scanCandidate p used) cs best)"
proof (induction cs arbitrary: S best)
  case Nil
  then show ?case by (simp add: eligible_def)
next
  case (Cons c cs)
  from isMin_step [OF Cons.prems] have "isMin (S \<union> eligible p used [c]) (scanCandidate p used c best)" .
  from Cons.IH [OF this] show ?case
    by (simp add: eligible_Cons [of p used c cs] Un_assoc)
qed

lemma findBest_isMin:
  "isMin (eligible p used (scanned prev p)) (findBest p used (buildBins prev))"
  using isMin_fold [of "{}" None p used "scanned prev p"]
  by (simp add: findBest_scanned isMin_def)


lemma scanned_nineCells:
  "binKey la lo \<in> set (neighborBinKeys (lat p) (lon p)) \<longleftrightarrow> inNineCells p la lo"
proof -
  have e: "\<And>a b :: int. \<bar>a - b\<bar> \<le> 1 \<longleftrightarrow> a = b + (- 1) \<or> a = b \<or> a = b + 1" by arith
  show ?thesis
    by (simp add: binKey_def neighborBinKeys_def BIN_DEG_def inNineCells_def gridCell_def Let_def e)
       blast
qed

lemma eligible_scanned:
  "((c, km) \<in> eligible p used (scanned prev p))
   = (\<exists>la lo. (c, la, lo) \<in> set (unclaimedNearby prev used p) \<and> haversineKm (lat p) (lon p) la lo = Some km)"
  by (auto simp: eligible_def set_scanned unclaimedNearby_def scanned_nineCells)

text \<open>What the search returns, in terms of the unclaimed nearby previous points.\<close>

lemma findBest_Some:
  assumes "findBest p used (buildBins prev) = Some (c, km)"
  shows "\<exists>la lo. (c, la, lo) \<in> set (unclaimedNearby prev used p)
           \<and> haversineKm (lat p) (lon p) la lo = Some km
           \<and> (\<forall>(c', la', lo') \<in> set (unclaimedNearby prev used p).
                 \<forall>km'. haversineKm (lat p) (lon p) la' lo' = Some km' \<longrightarrow> km \<le> km')"
proof -
  from findBest_isMin [of p used prev] assms
  have a: "(c, km) \<in> eligible p used (scanned prev p)"
    and b: "\<forall>(c', km') \<in> eligible p used (scanned prev p). km \<le> km'"
    by (simp_all add: isMin_def)
  from a obtain la lo where l: "(c, la, lo) \<in> set (unclaimedNearby prev used p)"
      "haversineKm (lat p) (lon p) la lo = Some km"
    by (auto simp: eligible_scanned)
  have "\<forall>(c', la', lo') \<in> set (unclaimedNearby prev used p).
                 \<forall>km'. haversineKm (lat p) (lon p) la' lo' = Some km' \<longrightarrow> km \<le> km'"
  proof (clarify)
    fix c' la' lo' km'
    assume "(c', la', lo') \<in> set (unclaimedNearby prev used p)" "haversineKm (lat p) (lon p) la' lo' = Some km'"
    then have "(c', km') \<in> eligible p used (scanned prev p)" by (auto simp: eligible_scanned)
    with b show "km \<le> km'" by auto
  qed
  with l show ?thesis by blast
qed

lemma findBest_None:
  assumes "findBest p used (buildBins prev) = None"
  shows "\<forall>(c, la, lo) \<in> set (unclaimedNearby prev used p). haversineKm (lat p) (lon p) la lo = None"
proof (clarify)
  fix c la lo
  assume m: "(c, la, lo) \<in> set (unclaimedNearby prev used p)"
  from findBest_isMin [of p used prev] assms have e: "eligible p used (scanned prev p) = {}"
    by (simp add: isMin_def)
  show "haversineKm (lat p) (lon p) la lo = None"
  proof (cases "haversineKm (lat p) (lon p) la lo")
    case (Some km)
    with m have "(c, km) \<in> eligible p used (scanned prev p)" by (auto simp: eligible_scanned)
    with e show ?thesis by simp
  qed simp
qed

section \<open>The distance\<close>

lemma toRad_bounds:
  assumes "\<bar>a\<bar> \<le> 90"
  shows "- (pi / 2) \<le> toRad a \<and> toRad a \<le> pi / 2"
proof -
  from assms have "a \<le> 90" "- 90 \<le> a" by simp_all
  then have "a * pi \<le> 90 * pi" "(- 90) * pi \<le> a * pi"
    by (intro mult_right_mono, simp, simp)+
  then show ?thesis by (simp add: toRad_def)
qed

lemma cos_toRad_nonneg: "\<bar>a\<bar> \<le> 90 \<Longrightarrow> 0 \<le> cos (toRad a)"
  using toRad_bounds [of a] by (simp add: cos_ge_zero)

lemma haversine_defined:
  assumes "\<bar>aLat\<bar> \<le> 90" and "\<bar>bLat\<bar> \<le> 90"
  shows "\<exists>km. haversineKm aLat aLon bLat bLon = Some km \<and> 0 \<le> km"
proof -
  let ?s1 = "sin (toRad (bLat - aLat) / 2)"
  let ?s2 = "sin (toRad (bLon - aLon) / 2)"
  let ?q = "?s1 * ?s1 + cos (toRad aLat) * cos (toRad bLat) * ?s2 * ?s2"
  have "0 \<le> cos (toRad aLat) * cos (toRad bLat)"
    using assms by (simp add: cos_toRad_nonneg)
  moreover have "0 \<le> ?s2 * ?s2" by simp
  ultimately have "0 \<le> cos (toRad aLat) * cos (toRad bLat) * (?s2 * ?s2)"
    by (rule mult_nonneg_nonneg)
  then have q: "0 \<le> ?q" by (simp add: mult.assoc)
  have "0 \<le> min 1 (sqrt ?q)" using q by simp
  moreover have "min 1 (sqrt ?q) \<le> 1" by simp
  ultimately have "0 \<le> arcsin (min 1 (sqrt ?q))"
    by (intro arcsin_nonneg) simp
  with q show ?thesis by (simp add: haversineKm_def Let_def)
qed

text \<open>
  For latitudes in range the argument of the square root is at most 1, so the bound
  \<open>Math.min(1, ...)\<close> changes nothing and the code computes the great-circle distance.
\<close>

lemma haversine_arg_le_1:
  fixes A B s :: real
  assumes "0 \<le> cos A * cos B" and "s * s \<le> 1"
  shows "sin ((B - A) / 2) * sin ((B - A) / 2) + cos A * cos B * (s * s) \<le> 1"
proof -
  define t where "t = sin ((B - A) / 2) * sin ((B - A) / 2)"
  define c where "c = cos A * cos B"
  have "c * (s * s) \<le> c * 1"
    unfolding c_def using assms(2,1) by (rule mult_left_mono)
  then have le: "c * (s * s) \<le> c" by simp
  have "2 * ((B - A) / 2) = B - A" by simp
  with cos_double_sin [of "(B - A) / 2"]
  have "cos (B - A) = 1 - 2 * (sin ((B - A) / 2))\<^sup>2" by (simp only:)
  then have t: "t = (1 - cos (B - A)) / 2" by (simp add: t_def power2_eq_square)
  have "cos (A - B) = cos (B - A)" using cos_minus [of "B - A"] by simp
  with cos_times_cos [of A B] have c: "c = (cos (B - A) + cos (A + B)) / 2"
    by (simp add: c_def)
  have "t + c = (1 + cos (A + B)) / 2" unfolding t c by (simp add: field_simps)
  moreover have "(1 + cos (A + B)) / 2 \<le> 1" by simp
  ultimately have "t + c \<le> 1" by (simp only:)
  with le have "t + c * (s * s) \<le> 1" by linarith
  then show ?thesis by (simp only: t_def c_def)
qed

lemma haversine_greatCircle:
  assumes "\<bar>aLat\<bar> \<le> 90" and "\<bar>bLat\<bar> \<le> 90"
  shows "haversineKm aLat aLon bLat bLon = Some (greatCircleKm aLat aLon bLat bLon)"
proof -
  let ?s1 = "sin (toRad (bLat - aLat) / 2)"
  let ?s2 = "sin (toRad (bLon - aLon) / 2)"
  let ?q = "?s1 * ?s1 + cos (toRad aLat) * cos (toRad bLat) * ?s2 * ?s2"
  have c: "0 \<le> cos (toRad aLat) * cos (toRad bLat)"
    using assms by (simp add: cos_toRad_nonneg)
  have "0 \<le> ?s2 * ?s2" by simp
  with c have "0 \<le> cos (toRad aLat) * cos (toRad bLat) * (?s2 * ?s2)"
    by (rule mult_nonneg_nonneg)
  then have q0: "0 \<le> ?q" by (simp add: mult.assoc)
  have d: "toRad (bLat - aLat) = toRad bLat - toRad aLat"
    by (simp add: toRad_def field_simps)
  have "?s2 * ?s2 \<le> 1"
    using abs_sin_le_one [of "toRad (bLon - aLon) / 2"]
    by (metis abs_le_square_iff abs_one mult_1 power2_eq_square)
  then have "sin ((toRad bLat - toRad aLat) / 2) * sin ((toRad bLat - toRad aLat) / 2)
          + cos (toRad aLat) * cos (toRad bLat) * (?s2 * ?s2) \<le> 1"
    by (rule haversine_arg_le_1 [OF c])
  then have q1: "?q \<le> 1" by (simp add: d mult.assoc)
  then have "sqrt ?q \<le> 1" by simp
  then have m: "min 1 (sqrt ?q) = sqrt ?q" by simp
  have g: "greatCircleKm aLat aLon bLat bLon = 2 * 6371 * arcsin (sqrt ?q)"
    by (simp add: greatCircleKm_def Let_def toRad_def power2_eq_square mult.assoc)
  from q0 have "haversineKm aLat aLon bLat bLon = Some (2 * 6371 * arcsin (min 1 (sqrt ?q)))"
    by (simp add: haversineKm_def Let_def)
  then show ?thesis by (simp only: m g)
qed




section \<open>The matching loop\<close>

lemma ident_tracked [simp]: "ident (tracked i k p) = i"
  and lat_tracked [simp]: "lat (tracked i k p) = lat p"
  and lon_tracked [simp]: "lon (tracked i k p) = lon p"
  by (simp_all add: tracked_def)

lemma tracked_self: "tracked i k p = tracked (ident (tracked i k p)) k p"
  by simp

lemma followsSpec_reuse:
  assumes "(c, la, lo) \<in> set (unclaimedNearby prev used p)"
      and "\<forall>(c', la', lo') \<in> set (unclaimedNearby prev used p).
             greatCircleKm (lat p) (lon p) la lo \<le> greatCircleKm (lat p) (lon p) la' lo'"
      and "greatCircleKm (lat p) (lon p) la lo \<le> 150"
      and "followsSpec prev (insert c used) n (k + 1) ps ts n'"
  shows "followsSpec prev used n k (p # ps) (tracked c k p # ts) n'"
proof -
  have "\<exists>(c0, la0, lo0) \<in> set (unclaimedNearby prev used p).
             (\<forall>(c', la', lo') \<in> set (unclaimedNearby prev used p).
                 greatCircleKm (lat p) (lon p) la0 lo0 \<le> greatCircleKm (lat p) (lon p) la' lo')
             \<and> greatCircleKm (lat p) (lon p) la0 lo0 \<le> 150
             \<and> ident (tracked c k p) = c0
             \<and> followsSpec prev (insert c0 used) n (k + 1) ps ts n'"
    using assms by (intro bexI [of _ "(c, la, lo)"]) auto
  then show ?thesis
    by (subst followsSpec.simps) (simp only: tracked_self [symmetric] simp_thms)
qed

lemma followsSpec_mint:
  assumes "\<forall>(c, la, lo) \<in> set (unclaimedNearby prev used p).
             150 < greatCircleKm (lat p) (lon p) la lo"
      and "followsSpec prev used (n + 1) (k + 1) ps ts n'"
  shows "followsSpec prev used n k (p # ps) (tracked (''b'' @ showNat n) k p # ts) n'"
proof -
  have "(\<forall>(c, la, lo) \<in> set (unclaimedNearby prev used p).
             150 < greatCircleKm (lat p) (lon p) la lo)
        \<and> ident (tracked (''b'' @ showNat n) k p) = ''b'' @ showNat n
        \<and> followsSpec prev used (n + 1) (k + 1) ps ts n'"
    using assms by simp
  then have "tracked (''b'' @ showNat n) k p
               = tracked (ident (tracked (''b'' @ showNat n) k p)) k p
             \<and> ((\<exists>(c, la, lo) \<in> set (unclaimedNearby prev used p).
                    (\<forall>(c', la', lo') \<in> set (unclaimedNearby prev used p).
                        greatCircleKm (lat p) (lon p) la lo \<le> greatCircleKm (lat p) (lon p) la' lo')
                    \<and> greatCircleKm (lat p) (lon p) la lo \<le> 150
                    \<and> ident (tracked (''b'' @ showNat n) k p) = c
                    \<and> followsSpec prev (insert c used) n (k + 1) ps ts n')
                 \<or> ((\<forall>(c, la, lo) \<in> set (unclaimedNearby prev used p).
                        150 < greatCircleKm (lat p) (lon p) la lo)
                     \<and> ident (tracked (''b'' @ showNat n) k p) = ''b'' @ showNat n
                     \<and> followsSpec prev used (n + 1) (k + 1) ps ts n'))"
    using tracked_self [of "''b'' @ showNat n" k p] by blast
  then show ?thesis
    by (subst followsSpec.simps)
qed

lemma followsSpec_mono: "followsSpec prev used n k ps out n' \<Longrightarrow> n \<le> n'"
proof (induction prev used n k ps out n' rule: followsSpec.induct)
  case (3 prev used n k p ps t ts n')
  from "3.prems" show ?case
    by (subst (asm) followsSpec.simps) (use "3.IH" in \<open>fastforce simp del: followsSpec.simps\<close>)
qed simp_all

text \<open>
  The loop follows the rule, for previous positions and points with latitudes in range,
  where the distance the code computes is the great-circle distance.
\<close>

lemma assignLoop_spec:
  assumes ne: "\<forall>(i, la, lo) \<in> set prev. i \<noteq> [] \<and> \<bar>la\<bar> \<le> 90"
  shows "\<forall>p \<in> set ps. \<bar>lat p\<bar> \<le> 90
         \<Longrightarrow> assignLoop (buildBins prev) ps k (used, n, acc) = (used', n', out)
         \<Longrightarrow> \<exists>new. out = acc @ new \<and> followsSpec prev used n k ps new n'"
proof (induction ps arbitrary: k used n acc)
  case Nil
  then show ?case by simp
next
  case (Cons p ps)
  let ?mint = "tracked (''b'' @ showNat n) k p"
  from Cons.prems(1) have pl: "\<bar>lat p\<bar> \<le> 90" and rest: "\<forall>p \<in> set ps. \<bar>lat p\<bar> \<le> 90"
    by simp_all
  have gc: "\<And>c la lo. (c, la, lo) \<in> set (unclaimedNearby prev used p) \<Longrightarrow>
              haversineKm (lat p) (lon p) la lo = Some (greatCircleKm (lat p) (lon p) la lo)"
  proof -
    fix c la lo
    assume "(c, la, lo) \<in> set (unclaimedNearby prev used p)"
    then have "(c, la, lo) \<in> set prev" by (simp add: unclaimedNearby_def)
    with ne have "\<bar>la\<bar> \<le> 90" by fastforce
    with pl show "haversineKm (lat p) (lon p) la lo = Some (greatCircleKm (lat p) (lon p) la lo)"
      by (rule haversine_greatCircle)
  qed
  show ?case
  proof (cases "findBest p used (buildBins prev)")
    case None
    with Cons.prems(2)
    have "assignLoop (buildBins prev) ps (k + 1) (used, n + 1, acc @ [?mint]) = (used', n', out)"
      by simp
    from Cons.IH [OF rest this] obtain new where
      o: "out = (acc @ [?mint]) @ new" and f: "followsSpec prev used (n + 1) (k + 1) ps new n'"
      by blast
    have "\<forall>(c, la, lo) \<in> set (unclaimedNearby prev used p).
             150 < greatCircleKm (lat p) (lon p) la lo"
    proof (clarify)
      fix c la lo
      assume m: "(c, la, lo) \<in> set (unclaimedNearby prev used p)"
      with findBest_None [OF None] have "haversineKm (lat p) (lon p) la lo = None" by fastforce
      with gc [OF m] show "150 < greatCircleKm (lat p) (lon p) la lo" by simp
    qed
    from followsSpec_mint [OF this f] o show ?thesis by simp
  next
    case (Some b)
    obtain c km where b: "b = (c, km)" by (cases b)
    from findBest_Some [OF Some [unfolded b]] obtain la lo where
      m: "(c, la, lo) \<in> set (unclaimedNearby prev used p)"
      and h: "haversineKm (lat p) (lon p) la lo = Some km"
      and least: "\<forall>(c', la', lo') \<in> set (unclaimedNearby prev used p).
                 \<forall>km'. haversineKm (lat p) (lon p) la' lo' = Some km' \<longrightarrow> km \<le> km'"
      by blast
    from gc [OF m] h have km: "km = greatCircleKm (lat p) (lon p) la lo" by simp
    have least': "\<forall>(c', la', lo') \<in> set (unclaimedNearby prev used p).
                   greatCircleKm (lat p) (lon p) la lo \<le> greatCircleKm (lat p) (lon p) la' lo'"
    proof (clarify)
      fix c' la' lo'
      assume m': "(c', la', lo') \<in> set (unclaimedNearby prev used p)"
      with least gc [OF m'] have "km \<le> greatCircleKm (lat p) (lon p) la' lo'" by fastforce
      then show "greatCircleKm (lat p) (lon p) la lo \<le> greatCircleKm (lat p) (lon p) la' lo'"
        by (simp only: km)
    qed
    from m have "(c, la, lo) \<in> set prev" by (simp add: unclaimedNearby_def)
    with ne have cne: "c \<noteq> []" by fastforce
    show ?thesis
    proof (cases "km \<le> 150")
      case True
      with Cons.prems(2) Some b cne
      have "assignLoop (buildBins prev) ps (k + 1) (insert c used, n, acc @ [tracked c k p]) = (used', n', out)"
        by (simp add: MATCH_KM_def)
      from Cons.IH [OF rest this] obtain new where
        o: "out = (acc @ [tracked c k p]) @ new" and f: "followsSpec prev (insert c used) n (k + 1) ps new n'"
        by blast
      from True have "greatCircleKm (lat p) (lon p) la lo \<le> 150" by (simp only: km)
      from followsSpec_reuse [OF m least' this f] o show ?thesis by simp
    next
      case False
      with Cons.prems(2) Some b
      have "assignLoop (buildBins prev) ps (k + 1) (used, n + 1, acc @ [?mint]) = (used', n', out)"
        by (simp add: MATCH_KM_def)
      from Cons.IH [OF rest this] obtain new where
        o: "out = (acc @ [?mint]) @ new" and f: "followsSpec prev used (n + 1) (k + 1) ps new n'"
        by blast
      have "\<forall>(c, la, lo) \<in> set (unclaimedNearby prev used p).
               150 < greatCircleKm (lat p) (lon p) la lo"
      proof (clarify)
        fix c' la' lo'
        assume m': "(c', la', lo') \<in> set (unclaimedNearby prev used p)"
        with least' have "greatCircleKm (lat p) (lon p) la lo \<le> greatCircleKm (lat p) (lon p) la' lo'"
          by fastforce
        with False km show "150 < greatCircleKm (lat p) (lon p) la' lo'" by simp
      qed
      from followsSpec_mint [OF this f] o show ?thesis by simp
    qed
  qed
qed

lemma update_fresh: "k \<notin> fst ` set al \<Longrightarrow> AList.update k v al = al @ [(k, v)]"
  by (induction al) auto

lemma fold_update_distinct:
  "distinct (map fst acc @ map ident out) \<Longrightarrow>
   fold (\<lambda>p m. AList.update (ident p) (lat p, lon p) m) out acc
   = acc @ map (\<lambda>t. (ident t, lat t, lon t)) out"
proof (induction out arbitrary: acc)
  case Nil
  show ?case by simp
next
  case (Cons t out)
  from Cons.prems have f: "ident t \<notin> fst ` set acc" by auto
  from Cons.prems have d: "distinct (map fst (acc @ [(ident t, lat t, lon t)]) @ map ident out)"
    by auto
  show ?case
    using Cons.IH [OF d] by (simp add: update_fresh [OF f])
qed

lemma assignLoop_ids:
  assumes dis: "fst ` set prev \<inter> mintedId ` {n0..} = {}"
  shows "assignLoop (buildBins prev) ps k (used, n, acc) = (used', n', out)
         \<Longrightarrow> distinct (map ident acc)
         \<Longrightarrow> ident ` set acc = used \<union> mintedId ` {n0..<n}
         \<Longrightarrow> used \<subseteq> fst ` set prev
         \<Longrightarrow> n0 \<le> n
         \<Longrightarrow> distinct (map ident out) \<and> ident ` set out = used' \<union> mintedId ` {n0..<n'}
             \<and> used' \<subseteq> fst ` set prev \<and> n \<le> n'"
proof (induction ps arbitrary: k used n acc)
  case Nil
  then show ?case by simp
next
  case (Cons p ps)
  let ?mint = "tracked (''b'' @ showNat n) k p"
  have fresh: "mintedId n \<notin> ident ` set acc"
  proof
    assume "mintedId n \<in> ident ` set acc"
    with Cons.prems(3) have "mintedId n \<in> used \<or> mintedId n \<in> mintedId ` {n0..<n}" by auto
    then show False
    proof
      assume "mintedId n \<in> used"
      with Cons.prems(4) have "mintedId n \<in> fst ` set prev" by auto
      moreover from Cons.prems(5) have "mintedId n \<in> mintedId ` {n0..}" by auto
      ultimately show False using dis by blast
    next
      assume "mintedId n \<in> mintedId ` {n0..<n}"
      then obtain m where "m < n" "mintedId n = mintedId m" by auto
      then show False using mintedId_inj [of n m] by simp
    qed
  qed
  have mintStep:
    "assignLoop (buildBins prev) ps (k + 1) (used, n + 1, acc @ [?mint]) = (used', n', out) \<Longrightarrow> ?case"
  proof -
    assume a: "assignLoop (buildBins prev) ps (k + 1) (used, n + 1, acc @ [?mint]) = (used', n', out)"
    have d: "distinct (map ident (acc @ [?mint]))"
      using Cons.prems(2) fresh by (simp add: mintedId_def image_iff)
    have "{n0..<n + 1} = insert n {n0..<n}" using Cons.prems(5) by auto
    then have s: "ident ` set (acc @ [?mint]) = used \<union> mintedId ` {n0..<n + 1}"
      using Cons.prems(3) by (simp add: mintedId_def)
    have le: "n0 \<le> n + 1" using Cons.prems(5) by simp
    from Cons.IH [OF a d s Cons.prems(4) le] show ?case by simp
  qed
  show ?case
  proof (cases "findBest p used (buildBins prev)")
    case None
    with Cons.prems(1) show ?thesis by (intro mintStep) simp
  next
    case (Some b)
    obtain c km where b: "b = (c, km)" by (cases b)
    show ?thesis
    proof (cases "c \<noteq> [] \<and> km \<le> MATCH_KM")
      case False
      with Cons.prems(1) Some b show ?thesis by (intro mintStep) auto
    next
      case True
      with Cons.prems(1) Some b
      have a: "assignLoop (buildBins prev) ps (k + 1) (insert c used, n, acc @ [tracked c k p]) = (used', n', out)"
        by simp
      from findBest_Some [OF Some [unfolded b]] obtain la lo where
        m: "(c, la, lo) \<in> set (unclaimedNearby prev used p)" by blast
      then have cp: "(c, la, lo) \<in> set prev" and cu: "c \<notin> used" by (simp_all add: unclaimedNearby_def)
      from cp have cP: "c \<in> fst ` set prev" by force
      have "c \<notin> mintedId ` {n0..<n}"
      proof
        assume "c \<in> mintedId ` {n0..<n}"
        then have "c \<in> mintedId ` {n0..}" by auto
        with cP dis show False by blast
      qed
      with cu Cons.prems(3) have "c \<notin> ident ` set acc" by simp
      with Cons.prems(2) have d: "distinct (map ident (acc @ [tracked c k p]))"
        by (simp add: image_iff)
      have s: "ident ` set (acc @ [tracked c k p]) = insert c used \<union> mintedId ` {n0..<n}"
        using Cons.prems(3) by simp
      have u: "insert c used \<subseteq> fst ` set prev" using cP Cons.prems(4) by simp
      from Cons.IH [OF a d s u Cons.prems(5)] show ?thesis by simp
    qed
  qed
qed

lemma followsSpec_positions:
  "followsSpec prev used n k ps out n' \<Longrightarrow>
   map (\<lambda>t. (lat t, lon t, meta t)) out = map (\<lambda>p. (lat p, lon p, meta p)) ps
   \<and> map idx out = [k ..< k + length ps]"
proof (induction prev used n k ps out n' rule: followsSpec.induct)
  case (3 prev used n k p ps t ts n')
  from "3.prems" have t: "t = tracked (ident t) k p"
    by (subst (asm) followsSpec.simps) blast
  have tl: "lat t = lat p" "lon t = lon p" "meta t = meta p" "idx t = k"
    by (subst t, simp add: tracked_def)+
  from "3.prems" have
    "map (\<lambda>t. (lat t, lon t, meta t)) ts = map (\<lambda>p. (lat p, lon p, meta p)) ps
       \<and> map idx ts = [k + 1 ..< k + 1 + length ps]"
    by (subst (asm) followsSpec.simps) (use "3.IH" in \<open>fastforce simp del: followsSpec.simps\<close>)
  then have a: "map (\<lambda>t. (lat t, lon t, meta t)) ts = map (\<lambda>p. (lat p, lon p, meta p)) ps"
    and b: "map idx ts = [Suc k ..< Suc k + length ps]" by simp_all
  have lt: "k < k + length (p # ps)" by simp
  have e: "Suc k + length ps = k + length (p # ps)" by simp
  have "[k ..< k + length (p # ps)] = k # [Suc k ..< Suc k + length ps]"
    unfolding e by (rule upt_conv_Cons [OF lt])
  with tl a b show ?case by (simp del: upt_Suc length_Cons list.size)
qed simp_all

lemma trackerInv_disjoint:
  assumes "trackerInv st"
  shows "fst ` set (prevById st) \<inter> mintedId ` {nextId st..} = {}"
proof -
  have "\<And>i. i \<in> fst ` set (prevById st) \<Longrightarrow> i \<in> mintedId ` {1..<nextId st}"
    using assms by (fastforce simp: trackerInv_def)
  moreover have "mintedId ` {1..<nextId st} \<inter> mintedId ` {nextId st..} = {}"
    using mintedId_inj by fastforce
  ultimately show ?thesis by blast
qed

lemma trackerInv_nonempty:
  assumes "trackerInv st"
  shows "\<forall>(i, la, lo) \<in> set (prevById st). i \<noteq> [] \<and> \<bar>la\<bar> \<le> 90"
  using assms by (fastforce simp: trackerInv_def mintedId_def canonical_def)

text \<open>The result of a poll, unfolded once.\<close>

lemma assignStableIds_unfold:
  assumes "assignLoop (buildBins (prevById st)) pts 0 ({}, nextId st, []) = (used', n', out)"
  shows "assignStableIds st pts
         = (\<lparr>nextId = n', prevById = fold (\<lambda>p m. AList.update (ident p) (lat p, lon p) m) out []\<rparr>, out)"
  using assms by (simp add: assignStableIds_def)

section \<open>One poll of the tracker\<close>

lemma haversine_same: "\<bar>la\<bar> \<le> 90 \<Longrightarrow> haversineKm la lo la lo = Some 0"
  using cos_toRad_nonneg [of la]
  by (simp add: haversineKm_def toRad_def Let_def)

lemma mintedId_1: "mintedId 1 = ''b1''" and mintedId_2: "mintedId 2 = ''b2''"
  by (simp_all add: mintedId_def showNat.simps digitChar_def)

lemma haversine_arctic:
  "\<exists>km. haversineKm (899 / 10) (21 / 2) (899 / 10) (1 / 2) = Some km \<and> km \<le> 150"
proof -
  define c where "c = cos (toRad (899 / 10))"
  define s2 where "s2 = sin (toRad (1 / 2 - 21 / 2) / 2)"
  define q where "q = c * c * s2 * s2"
  have c0: "0 \<le> c" unfolding c_def by (rule cos_toRad_nonneg) simp
  have "toRad (899 / 10) = pi / 2 - toRad (1 / 10)" by (simp add: toRad_def)
  then have cs: "c = sin (toRad (1 / 10))" unfolding c_def by (simp add: cos_sin_eq)
  have q0: "0 \<le> q" unfolding q_def using c0 by (simp add: mult.assoc)
  have "q = (c * s2)\<^sup>2" unfolding q_def by (simp add: power2_eq_square)
  then have "sqrt q = \<bar>c * s2\<bar>" by simp
  also have "\<dots> = c * \<bar>s2\<bar>" using c0 by (simp add: abs_mult)
  also have "\<dots> \<le> c * 1"
    by (rule mult_left_mono [OF _ c0]) (simp add: s2_def)
  finally have sq: "sqrt q \<le> c" by simp
  have "c \<le> 1" unfolding c_def by simp
  have m: "min 1 (sqrt q) \<le> c" using sq by simp
  have "0 \<le> min 1 (sqrt q)" using q0 by simp
  then have "- 1 \<le> min 1 (sqrt q)" by linarith
  from arcsin_le_arcsin [OF this m \<open>c \<le> 1\<close>]
  have "arcsin (min 1 (sqrt q)) \<le> arcsin (sin (toRad (1 / 10)))" by (simp only: cs)
  also have "\<dots> = toRad (1 / 10)"
    using toRad_bounds [of "1 / 10"] by (intro arcsin_sin) simp_all
  finally have a: "arcsin (min 1 (sqrt q)) \<le> pi / 1800" by (simp add: toRad_def)
  have "2 * 6371 * arcsin (min 1 (sqrt q)) \<le> 2 * 6371 * (pi / 1800)"
    using a by simp
  also have "\<dots> \<le> 150" using pi_less_4 by simp
  finally have km: "2 * 6371 * arcsin (min 1 (sqrt q)) \<le> 150" .
  have z: "toRad 0 = 0" by (simp add: toRad_def)
  have "haversineKm (899 / 10) (21 / 2) (899 / 10) (1 / 2) = Some (2 * 6371 * arcsin (min 1 (sqrt q)))"
    using q0 by (simp add: haversineKm_def Let_def q_def c_def s2_def z)
  with km show ?thesis by simp
qed

lemma trackerInv_initial: "trackerInv initialTracker"
  by (simp add: trackerInv_def initialTracker_def)

text \<open>Everything the proofs need about one poll.\<close>

lemma poll_facts:
  assumes inv: "trackerInv st"
  shows "\<exists>used' out.
           assignLoop (buildBins (prevById st)) pts 0 ({}, nextId st, [])
             = (used', nextId (fst (assignStableIds st pts)), out)
           \<and> assignStableIds st pts
             = (\<lparr>nextId = nextId (fst (assignStableIds st pts)),
                 prevById = map (\<lambda>t. (ident t, lat t, lon t)) out\<rparr>, out)
           \<and> distinct (map ident out)
           \<and> ident ` set out = used' \<union> mintedId ` {nextId st ..< nextId (fst (assignStableIds st pts))}
           \<and> used' \<subseteq> fst ` set (prevById st)
           \<and> nextId st \<le> nextId (fst (assignStableIds st pts))"
proof -
  obtain used' n' out where
    l: "assignLoop (buildBins (prevById st)) pts 0 ({}, nextId st, []) = (used', n', out)"
    by (cases "assignLoop (buildBins (prevById st)) pts 0 ({}, nextId st, [])") auto
  have e: "{nextId st ..< nextId st} = {}" by simp
  from assignLoop_ids [OF trackerInv_disjoint [OF inv] l, unfolded e]
  have ids: "distinct (map ident out)" "ident ` set out = used' \<union> mintedId ` {nextId st ..< n'}"
    "used' \<subseteq> fst ` set (prevById st)" "nextId st \<le> n'"
    by simp_all
  have "fold (\<lambda>p m. AList.update (ident p) (lat p, lon p) m) out []
          = map (\<lambda>t. (ident t, lat t, lon t)) out"
    using fold_update_distinct [of "[]" out] ids(1) by simp
  with assignStableIds_unfold [OF l]
  have a: "assignStableIds st pts = (\<lparr>nextId = n', prevById = map (\<lambda>t. (ident t, lat t, lon t)) out\<rparr>, out)"
    by simp
  then have n: "nextId (fst (assignStableIds st pts)) = n'" by simp
  show ?thesis
    unfolding n using a ids l by blast
qed

lemma poll_follows:
  assumes inv: "trackerInv st" and lats: "\<forall>p \<in> set pts. \<bar>lat p\<bar> \<le> 90"
  shows "followsSpec (prevById st) {} (nextId st) 0 pts
           (snd (assignStableIds st pts)) (nextId (fst (assignStableIds st pts)))"
proof -
  from poll_facts [OF inv, of pts] obtain used' out where
    l: "assignLoop (buildBins (prevById st)) pts 0 ({}, nextId st, [])
          = (used', nextId (fst (assignStableIds st pts)), out)"
    and a: "assignStableIds st pts
             = (\<lparr>nextId = nextId (fst (assignStableIds st pts)),
                 prevById = map (\<lambda>t. (ident t, lat t, lon t)) out\<rparr>, out)"
    by blast
  have o: "snd (assignStableIds st pts) = out" by (subst a) simp
  from assignLoop_spec [OF trackerInv_nonempty [OF inv] lats l]
  show ?thesis unfolding o by simp
qed

lemma trackerInv_preserved:
  assumes inv: "trackerInv st" and can: "\<forall>p \<in> set pts. canonical (lat p) (lon p)"
  shows "trackerInv (fst (assignStableIds st pts))"
proof -
  let ?n' = "nextId (fst (assignStableIds st pts))"
  from poll_facts [OF inv, of pts] obtain used' out where
    a: "assignStableIds st pts = (\<lparr>nextId = ?n', prevById = map (\<lambda>t. (ident t, lat t, lon t)) out\<rparr>, out)"
    and d: "distinct (map ident out)"
    and s: "ident ` set out = used' \<union> mintedId ` {nextId st ..< ?n'}"
    and u: "used' \<subseteq> fst ` set (prevById st)"
    and le: "nextId st \<le> ?n'"
    by blast
  have p: "prevById (fst (assignStableIds st pts)) = map (\<lambda>t. (ident t, lat t, lon t)) out"
    by (subst a) simp
  have o: "snd (assignStableIds st pts) = out" by (subst a) simp
  from can have "\<forall>p \<in> set pts. \<bar>lat p\<bar> \<le> 90" by (simp add: canonical_def)
  from poll_follows [OF inv this]
  have f: "followsSpec (prevById st) {} (nextId st) 0 pts out ?n'" by (simp only: o)
  from inv have one: "1 \<le> nextId st" by (simp add: trackerInv_def)
  have old: "\<And>i. i \<in> fst ` set (prevById st) \<Longrightarrow> i \<in> mintedId ` {1 ..< nextId st}"
    using inv by (fastforce simp: trackerInv_def)
  have ids: "\<And>t. t \<in> set out \<Longrightarrow> ident t \<in> mintedId ` {1 ..< ?n'}"
  proof -
    fix t assume "t \<in> set out"
    then have "ident t \<in> used' \<union> mintedId ` {nextId st ..< ?n'}" using s by blast
    then show "ident t \<in> mintedId ` {1 ..< ?n'}"
    proof
      assume "ident t \<in> used'"
      with u old have "ident t \<in> mintedId ` {1 ..< nextId st}" by blast
      with le show ?thesis by auto
    next
      assume "ident t \<in> mintedId ` {nextId st ..< ?n'}"
      with one show ?thesis by auto
    qed
  qed
  from followsSpec_positions [OF f]
  have m: "map (\<lambda>t. (lat t, lon t, meta t)) out = map (\<lambda>p. (lat p, lon p, meta p)) pts" by simp
  have pos: "\<And>t. t \<in> set out \<Longrightarrow> canonical (lat t) (lon t)"
  proof -
    fix t assume "t \<in> set out"
    then have "(lat t, lon t, meta t) \<in> set (map (\<lambda>t. (lat t, lon t, meta t)) out)" by force
    then have "(lat t, lon t, meta t) \<in> set (map (\<lambda>p. (lat p, lon p, meta p)) pts)"
      by (simp only: m)
    then obtain p where "p \<in> set pts" "(lat t, lon t, meta t) = (lat p, lon p, meta p)" by auto
    with can show "canonical (lat t) (lon t)" by auto
  qed
  have "1 \<le> ?n'" using one le by simp
  moreover have "distinct (map fst (map (\<lambda>t. (ident t, lat t, lon t)) out))"
    using d by (simp add: comp_def)
  moreover have "\<forall>(i, la, lo) \<in> set (map (\<lambda>t. (ident t, lat t, lon t)) out).
                   i \<in> mintedId ` {1 ..< ?n'} \<and> canonical la lo"
    using ids pos by auto
  ultimately show ?thesis
    unfolding trackerInv_def p by blast
qed

section \<open>The tracker across a poll\<close>

lemma st_two_inv: "trackerInv st_two"
proof -
  have "''b1'' \<in> mintedId ` {1 ..< 3}" using mintedId_1 by (intro image_eqI [of _ _ 1]) simp_all
  moreover have "''b2'' \<in> mintedId ` {1 ..< 3}" using mintedId_2 by (intro image_eqI [of _ _ 2]) simp_all
  ultimately show ?thesis
    by (simp add: trackerInv_def st_two_def canonical_def)
qed

lemma st_two_poll:
  "assignStableIds st_two pts_two
       = (\<lparr>nextId = 4, prevById = [(''b3'', 60, 60), (''b1'', 10, 20)]\<rparr>,
          [\<lparr>lat = 60, lon = 60, meta = None, ident = ''b3'', idx = 0\<rparr>,
           \<lparr>lat = 10, lon = 20, meta = Some 5, ident = ''b1'', idx = 1\<rparr>])"
  by (simp add: assignStableIds_def st_two_def pts_two_def buildBins_def addToBin_def
        binKey_def BIN_DEG_def fl_values findBest_def neighborBinKeys_def scanBin_def scanCandidate_def
        haversine_same MATCH_KM_def
        showNat.simps digitChar_def tracked_def)

lemma inv_b1:
  assumes "canonical la lo"
  shows "trackerInv \<lparr>nextId = 2, prevById = [(''b1'', la, lo)]\<rparr>"
proof -
  have "''b1'' \<in> mintedId ` {1 ..< 2}" using mintedId_1 by (intro image_eqI [of _ _ 1]) simp_all
  with assms show ?thesis by (simp add: trackerInv_def)
qed

lemma poll_dateline:
  "assignStableIds st_dateline [pt_dateline]
       = (\<lparr>nextId = 3, prevById = [(''b2'', 0, - 180)]\<rparr>, [tracked ''b2'' 0 pt_dateline])"
  by (simp add: assignStableIds_def st_dateline_def pt_dateline_def buildBins_def addToBin_def
        binKey_def BIN_DEG_def fl_values findBest_def neighborBinKeys_def scanBin_def
        showNat.simps digitChar_def tracked_def)

lemma poll_pole:
  "assignStableIds st_pole [pt_pole]
       = (\<lparr>nextId = 3, prevById = [(''b2'', 90, 100)]\<rparr>, [tracked ''b2'' 0 pt_pole])"
  by (simp add: assignStableIds_def st_pole_def pt_pole_def buildBins_def addToBin_def
        binKey_def BIN_DEG_def fl_values findBest_def neighborBinKeys_def scanBin_def
        showNat.simps digitChar_def tracked_def)

lemma poll_arctic:
  "assignStableIds st_arctic [pt_arctic]
       = (\<lparr>nextId = 3, prevById = [(''b2'', 899 / 10, 21 / 2)]\<rparr>, [tracked ''b2'' 0 pt_arctic])"
  by (simp add: assignStableIds_def st_arctic_def pt_arctic_def buildBins_def addToBin_def
        binKey_def BIN_DEG_def fl_values findBest_def neighborBinKeys_def scanBin_def
        showNat.simps digitChar_def tracked_def)

lemma trackerInv_truncate: "trackerInv (tracker.truncate st) = trackerInv st"
  by (simp add: trackerInv_def tracker.truncate_def)

lemma refresh_failed:
  assumes "fetchLatestBalloonsWithMeta s 0 res = Inl msg"
  shows "nextId (refreshBalloons s res stamp st) = nextId st
         \<and> prevById (refreshBalloons s res stamp st) = prevById st"
  using assms by (simp add: refreshBalloons_def)

lemma refresh_ok:
  assumes "\<not> inFlight st" and "fetchLatestBalloonsWithMeta s 0 res = Inr payload"
  shows "nextId (refreshBalloons s res stamp st)
           = nextId (fst (assignStableIds (tracker.truncate st) (points payload)))
         \<and> prevById (refreshBalloons s res stamp st)
           = prevById (fst (assignStableIds (tracker.truncate st) (points payload)))"
  using assms by (simp add: refreshBalloons_def tracker.truncate_def split: prod.splits)

lemma comp_two_truncate: "tracker.truncate comp_two = st_two"
  by (simp add: comp_two_def st_two_def tracker.truncate_def)

lemma fetch_res_ok:
  "fetchLatestBalloonsWithMeta (\<lambda>d. ''?'') 0 res_ok
     = Inr \<lparr>payload_hoursAgo = 0, payload_source = Upstream, payload_cacheAgeSeconds = None,
            points = pts_two\<rparr>"
  by (simp add: fetchLatestBalloonsWithMeta_def res_ok_def extractLatestPositions_def
        keepPoints_def map_filter_def normalizeArray_def elemAt_def isNumber_def resolveSource_def
        pts_two_def)

lemma fetch_res_bad_shape:
  "fetchLatestBalloonsWithMeta (\<lambda>d. ''?'') 0 res_bad_shape
     = Inl ''Unexpected balloon data shape. Preview: ?''"
  by (simp add: fetchLatestBalloonsWithMeta_def res_bad_shape_def extractLatestPositions_def preview_def)

lemma fetch_502:
  "fetchLatestBalloonsWithMeta (\<lambda>d. ''?'') 0 (HttpResponse 502 (Inr JNull)) = Inl ''API fetch failed: 502''"
  by (simp add: fetchLatestBalloonsWithMeta_def showNat.simps digitChar_def)

lemma comp_two_inv: "trackerInv comp_two"
proof -
  have "trackerInv (tracker.truncate comp_two)"
    using st_two_inv by (simp only: comp_two_truncate)
  then show ?thesis by (simp only: trackerInv_truncate)
qed












text \<open>
  Claim C2. The identifiers in the output of one poll are pairwise different. Each of them
  is an identifier of the previous table or is minted from a counter value of this poll,
  and no identifier minted from the counter value at the start of the poll or from a
  later one is in the previous table; different counter values give different
  identifiers. So no previous identifier is given to two points, and minted identifiers
  collide neither with one another nor with the previous table.
\<close>

theorem assigned_ids_unique:
  assumes "trackerInv st"
  shows "distinct (map ident (snd (assignStableIds st pts)))
         \<and> (\<forall>t \<in> set (snd (assignStableIds st pts)).
               ident t \<in> fst ` set (prevById st)
               \<or> ident t \<in> mintedId ` {nextId st ..< nextId (fst (assignStableIds st pts))})
         \<and> (\<forall>k \<ge> nextId st. mintedId k \<notin> fst ` set (prevById st))
         \<and> (\<forall>j k. mintedId j = mintedId k \<longrightarrow> j = k)"
proof -
  from poll_facts [OF assms, of pts] obtain used' out where
    a: "assignStableIds st pts
          = (\<lparr>nextId = nextId (fst (assignStableIds st pts)),
              prevById = map (\<lambda>t. (ident t, lat t, lon t)) out\<rparr>, out)"
    and d: "distinct (map ident out)"
    and s: "ident ` set out = used' \<union> mintedId ` {nextId st ..< nextId (fst (assignStableIds st pts))}"
    and u: "used' \<subseteq> fst ` set (prevById st)"
    by blast
  have o: "snd (assignStableIds st pts) = out" by (subst a) simp
  have m: "\<forall>t \<in> set out. ident t \<in> fst ` set (prevById st)
               \<or> ident t \<in> mintedId ` {nextId st ..< nextId (fst (assignStableIds st pts))}"
    using s u by blast
  have n: "\<forall>k \<ge> nextId st. mintedId k \<notin> fst ` set (prevById st)"
    using trackerInv_disjoint [OF assms] by auto
  have i: "\<forall>j k. mintedId j = mintedId k \<longrightarrow> j = k" using mintedId_inj by blast
  from d m n i show ?thesis unfolding o by blast
qed

theorem assigned_ids_unique_witness:
  "trackerInv st_two
   \<and> distinct [''b3'', ''b1'']
   \<and> ''b1'' \<in> fst ` set (prevById st_two)
   \<and> ''b3'' \<in> mintedId ` {3 ..< 4}
   \<and> ''b3'' \<notin> fst ` set (prevById st_two)"
proof -
  have m3: "mintedId 3 = ''b3''" by (simp add: mintedId_def showNat.simps digitChar_def)
  from assigned_ids_unique [OF st_two_inv, of pts_two]
  have "distinct (map ident (snd (assignStableIds st_two pts_two)))"
    and "\<forall>k \<ge> nextId st_two. mintedId k \<notin> fst ` set (prevById st_two)" by blast+
  then have "distinct [''b3'', ''b1'']" and "mintedId 3 \<notin> fst ` set (prevById st_two)"
    by (simp_all add: st_two_poll) (simp add: st_two_def)
  moreover have "''b3'' \<in> mintedId ` {3 ..< 4}" using m3 by (intro image_eqI [of _ _ 3]) simp_all
  moreover have "''b1'' \<in> fst ` set (prevById st_two)" by (simp add: st_two_def)
  ultimately show ?thesis using st_two_inv m3 by simp
qed

text \<open>
  Claim C9. The search does not wrap coordinates. There are a previous position and a
  current point at a great-circle distance of at most 150 km for which \<open>assignStableIds\<close>
  mints a new identifier, because the cell of the previous position is not among the nine
  cells scanned: the same place given as longitude 180 and as longitude -180, the pole
  given with two longitudes, and two places ten degrees of longitude apart at latitude
  89.9.
\<close>

theorem close_pairs_outside_neighborhood:
  "trackerInv st_dateline \<and> canonical (lat pt_dateline) (lon pt_dateline)
   \<and> prevById st_dateline = [(''b1'', 0, 180)]
   \<and> haversineKm (lat pt_dateline) (lon pt_dateline) 0 180 = Some 0
   \<and> binKey 0 180 \<notin> set (neighborBinKeys (lat pt_dateline) (lon pt_dateline))
   \<and> map ident (snd (assignStableIds st_dateline [pt_dateline])) = [''b2'']
   \<and> trackerInv st_pole \<and> canonical (lat pt_pole) (lon pt_pole)
   \<and> prevById st_pole = [(''b1'', 90, 0)]
   \<and> haversineKm (lat pt_pole) (lon pt_pole) 90 0 = Some 0
   \<and> binKey 90 0 \<notin> set (neighborBinKeys (lat pt_pole) (lon pt_pole))
   \<and> map ident (snd (assignStableIds st_pole [pt_pole])) = [''b2'']
   \<and> trackerInv st_arctic \<and> canonical (lat pt_arctic) (lon pt_arctic)
   \<and> prevById st_arctic = [(''b1'', 899 / 10, 1 / 2)]
   \<and> (\<exists>km. haversineKm (lat pt_arctic) (lon pt_arctic) (899 / 10) (1 / 2) = Some km \<and> km \<le> 150)
   \<and> binKey (899 / 10) (1 / 2) \<notin> set (neighborBinKeys (lat pt_arctic) (lon pt_arctic))
   \<and> map ident (snd (assignStableIds st_arctic [pt_arctic])) = [''b2'']"
proof -
  have d1: "trackerInv st_dateline" unfolding st_dateline_def by (rule inv_b1) (simp add: canonical_def)
  have d2: "canonical (lat pt_dateline) (lon pt_dateline)" by (simp add: pt_dateline_def canonical_def)
  have d3: "prevById st_dateline = [(''b1'', 0, 180)]" by (simp add: st_dateline_def)
  have d4: "haversineKm (lat pt_dateline) (lon pt_dateline) 0 180 = Some 0"
    by (simp add: pt_dateline_def haversineKm_def toRad_def Let_def)
  have d5: "binKey 0 180 \<notin> set (neighborBinKeys (lat pt_dateline) (lon pt_dateline))"
    by (simp add: pt_dateline_def binKey_def neighborBinKeys_def BIN_DEG_def fl_values)
  have d6: "map ident (snd (assignStableIds st_dateline [pt_dateline])) = [''b2'']"
    by (simp add: poll_dateline)
  have p1: "trackerInv st_pole" unfolding st_pole_def by (rule inv_b1) (simp add: canonical_def)
  have p2: "canonical (lat pt_pole) (lon pt_pole)" by (simp add: pt_pole_def canonical_def)
  have p3: "prevById st_pole = [(''b1'', 90, 0)]" by (simp add: st_pole_def)
  have p4: "haversineKm (lat pt_pole) (lon pt_pole) 90 0 = Some 0"
    by (simp add: pt_pole_def haversineKm_def toRad_def Let_def)
  have p5: "binKey 90 0 \<notin> set (neighborBinKeys (lat pt_pole) (lon pt_pole))"
    by (simp add: pt_pole_def binKey_def neighborBinKeys_def BIN_DEG_def fl_values)
  have p6: "map ident (snd (assignStableIds st_pole [pt_pole])) = [''b2'']"
    by (simp add: poll_pole)
  have a1: "trackerInv st_arctic" unfolding st_arctic_def by (rule inv_b1) (simp add: canonical_def)
  have a2: "canonical (lat pt_arctic) (lon pt_arctic)" by (simp add: pt_arctic_def canonical_def)
  have a3: "prevById st_arctic = [(''b1'', 899 / 10, 1 / 2)]" by (simp add: st_arctic_def)
  have a4: "\<exists>km. haversineKm (lat pt_arctic) (lon pt_arctic) (899 / 10) (1 / 2) = Some km \<and> km \<le> 150"
    using haversine_arctic by (simp add: pt_arctic_def)
  have a5: "binKey (899 / 10) (1 / 2) \<notin> set (neighborBinKeys (lat pt_arctic) (lon pt_arctic))"
    by (simp add: pt_arctic_def binKey_def neighborBinKeys_def BIN_DEG_def fl_values)
  have a6: "map ident (snd (assignStableIds st_arctic [pt_arctic])) = [''b2'']"
    by (simp add: poll_arctic)
  from d1 d2 d3 d4 d5 d6 p1 p2 p3 p4 p5 p6 a1 a2 a3 a4 a5 a6 show ?thesis by blast
qed

theorem close_pairs_outside_neighborhood_witness:
  "map ident (snd (assignStableIds st_dateline [pt_dateline])) = [''b2'']
   \<and> haversineKm (lat pt_dateline) (lon pt_dateline) 0 180 = Some 0"
  using close_pairs_outside_neighborhood by blast

text \<open>
  Claim C7. A failed poll changes neither the identity table nor the counter: when the
  request fails, when the endpoint answers with a status that is not a success (no data
  available), and when the normalizer rejects the shape of the payload. After a
  successful poll the table consists of exactly the pairs of identifier and position of
  the points just returned, in their order and with every identifier once, and the
  counter is the one the poll left.
\<close>

theorem failed_poll_keeps_table:
  "(\<forall>msg. fetchLatestBalloonsWithMeta s 0 res = Inl msg \<longrightarrow>
       nextId (refreshBalloons s res stamp st) = nextId st
       \<and> prevById (refreshBalloons s res stamp st) = prevById st)
   \<and> (\<forall>code body. res = HttpResponse code body \<and> \<not> (200 \<le> code \<and> code \<le> 299) \<longrightarrow>
       nextId (refreshBalloons s res stamp st) = nextId st
       \<and> prevById (refreshBalloons s res stamp st) = prevById st)
   \<and> (\<forall>code raw msg. res = HttpResponse code (Inr raw) \<and> extractLatestPositions s raw = Inl msg \<longrightarrow>
       nextId (refreshBalloons s res stamp st) = nextId st
       \<and> prevById (refreshBalloons s res stamp st) = prevById st)
   \<and> (\<forall>payload. \<not> inFlight st \<and> trackerInv st
          \<and> fetchLatestBalloonsWithMeta s 0 res = Inr payload \<longrightarrow>
       prevById (refreshBalloons s res stamp st)
         = map (\<lambda>t. (ident t, lat t, lon t))
             (snd (assignStableIds (tracker.truncate st) (points payload)))
       \<and> nextId (refreshBalloons s res stamp st)
         = nextId (fst (assignStableIds (tracker.truncate st) (points payload)))
       \<and> distinct (map fst (prevById (refreshBalloons s res stamp st))))"
proof (intro conjI allI impI)
  fix msg
  assume "fetchLatestBalloonsWithMeta s 0 res = Inl msg"
  from refresh_failed [OF this]
  show "nextId (refreshBalloons s res stamp st) = nextId st"
    and "prevById (refreshBalloons s res stamp st) = prevById st" by simp_all
next
  fix code body
  assume "res = HttpResponse code body \<and> \<not> (200 \<le> code \<and> code \<le> 299)"
  then have "fetchLatestBalloonsWithMeta s 0 res = Inl (''API fetch failed: '' @ showNat code)"
    by (auto simp: fetchLatestBalloonsWithMeta_def)
  from refresh_failed [OF this]
  show "nextId (refreshBalloons s res stamp st) = nextId st"
    and "prevById (refreshBalloons s res stamp st) = prevById st" by simp_all
next
  fix code raw msg
  assume "res = HttpResponse code (Inr raw) \<and> extractLatestPositions s raw = Inl msg"
  then have "\<exists>m. fetchLatestBalloonsWithMeta s 0 res = Inl m"
    by (simp add: fetchLatestBalloonsWithMeta_def)
  then obtain m where "fetchLatestBalloonsWithMeta s 0 res = Inl m" ..
  from refresh_failed [OF this]
  show "nextId (refreshBalloons s res stamp st) = nextId st"
    and "prevById (refreshBalloons s res stamp st) = prevById st" by simp_all
next
  fix payload
  assume h: "\<not> inFlight st \<and> trackerInv st \<and> fetchLatestBalloonsWithMeta s 0 res = Inr payload"
  let ?r = "assignStableIds (tracker.truncate st) (points payload)"
  from h have inv: "trackerInv (tracker.truncate st)" by (simp add: trackerInv_truncate)
  from poll_facts [OF inv, of "points payload"] obtain used' out where
    a: "?r = (\<lparr>nextId = nextId (fst ?r), prevById = map (\<lambda>t. (ident t, lat t, lon t)) out\<rparr>, out)"
    and d: "distinct (map ident out)"
    by blast
  have o: "snd ?r = out" by (subst a) simp
  have p: "prevById (fst ?r) = map (\<lambda>t. (ident t, lat t, lon t)) out" by (subst a) simp
  from h refresh_ok [of st s res payload stamp]
  have r: "nextId (refreshBalloons s res stamp st) = nextId (fst ?r)"
          "prevById (refreshBalloons s res stamp st) = prevById (fst ?r)" by simp_all
  show "prevById (refreshBalloons s res stamp st) = map (\<lambda>t. (ident t, lat t, lon t)) (snd ?r)"
    by (simp only: r p o)
  show "nextId (refreshBalloons s res stamp st) = nextId (fst ?r)" by (rule r)
  show "distinct (map fst (prevById (refreshBalloons s res stamp st)))"
    using d by (simp only: r p) (simp add: comp_def)
qed

theorem failed_poll_keeps_table_witness:
  "fetchLatestBalloonsWithMeta (\<lambda>d. ''?'') 0 res_bad_shape
     = Inl ''Unexpected balloon data shape. Preview: ?''
   \<and> nextId (refreshBalloons (\<lambda>d. ''?'') res_bad_shape ''t'' comp_two) = 3
   \<and> prevById (refreshBalloons (\<lambda>d. ''?'') res_bad_shape ''t'' comp_two)
       = [(''b1'', 10, 20), (''b2'', 40, 50)]
   \<and> nextId (refreshBalloons (\<lambda>d. ''?'') (HttpResponse 502 (Inr JNull)) ''t'' comp_two) = 3
   \<and> prevById (refreshBalloons (\<lambda>d. ''?'') (HttpResponse 502 (Inr JNull)) ''t'' comp_two)
       = [(''b1'', 10, 20), (''b2'', 40, 50)]
   \<and> \<not> inFlight comp_two \<and> trackerInv comp_two
   \<and> nextId (refreshBalloons (\<lambda>d. ''?'') res_ok ''t'' comp_two) = 4
   \<and> prevById (refreshBalloons (\<lambda>d. ''?'') res_ok ''t'' comp_two)
       = [(''b3'', 60, 60), (''b1'', 10, 20)]"
proof -
  have nf: "\<not> inFlight comp_two" by (simp add: comp_two_def)
  have c: "nextId comp_two = 3" "prevById comp_two = [(''b1'', 10, 20), (''b2'', 40, 50)]"
    by (simp_all add: comp_two_def)
  have a: "nextId (refreshBalloons (\<lambda>d. ''?'') res_bad_shape ''t'' comp_two) = nextId comp_two
           \<and> prevById (refreshBalloons (\<lambda>d. ''?'') res_bad_shape ''t'' comp_two) = prevById comp_two"
    by (rule failed_poll_keeps_table [of "\<lambda>d. ''?''" res_bad_shape "''t''" comp_two,
          THEN conjunct1, rule_format, OF fetch_res_bad_shape])
  have b: "nextId (refreshBalloons (\<lambda>d. ''?'') (HttpResponse 502 (Inr JNull)) ''t'' comp_two) = nextId comp_two
           \<and> prevById (refreshBalloons (\<lambda>d. ''?'') (HttpResponse 502 (Inr JNull)) ''t'' comp_two) = prevById comp_two"
    by (rule failed_poll_keeps_table [of "\<lambda>d. ''?''" "HttpResponse 502 (Inr JNull)" "''t''" comp_two,
          THEN conjunct1, rule_format, OF fetch_502])
  have h: "\<not> inFlight comp_two \<and> trackerInv comp_two
          \<and> fetchLatestBalloonsWithMeta (\<lambda>d. ''?'') 0 res_ok
              = Inr \<lparr>payload_hoursAgo = 0, payload_source = Upstream, payload_cacheAgeSeconds = None,
                     points = pts_two\<rparr>"
    using nf comp_two_inv fetch_res_ok by simp
  note w = failed_poll_keeps_table [of "\<lambda>d. ''?''" res_ok "''t''" comp_two,
          THEN conjunct2, THEN conjunct2, THEN conjunct2, rule_format, OF h]
  from w have "prevById (refreshBalloons (\<lambda>d. ''?'') res_ok ''t'' comp_two)
         = map (\<lambda>t. (ident t, lat t, lon t))
             (snd (assignStableIds (tracker.truncate comp_two) pts_two))"
    and "nextId (refreshBalloons (\<lambda>d. ''?'') res_ok ''t'' comp_two)
         = nextId (fst (assignStableIds (tracker.truncate comp_two) pts_two))"
    by (simp_all only: BalloonsPayload.simps)
  then have d: "prevById (refreshBalloons (\<lambda>d. ''?'') res_ok ''t'' comp_two) = [(''b3'', 60, 60), (''b1'', 10, 20)]"
       "nextId (refreshBalloons (\<lambda>d. ''?'') res_ok ''t'' comp_two) = 4"
    by (simp_all add: comp_two_truncate st_two_poll)
  from a b c d nf comp_two_inv fetch_res_bad_shape show ?thesis by (simp only: simp_thms)
qed

section \<open>The snapshot endpoint\<close>

lemma clampHoursAgo_range: "0 \<le> clampHoursAgo v \<and> clampHoursAgo v \<le> 23"
  by (cases v) (simp_all add: clampHoursAgo_def)

lemma mathRound_ms: "mathRound (of_int a / 1000) = (a + 500) div 1000"
proof -
  have "(of_int a :: real) / 1000 + 1 / 2 = of_int (a + 500) / of_int 1000" by simp
  then have "mathRound (of_int a / 1000) = \<lfloor>(of_int (a + 500) :: real) / of_int 1000\<rfloor>"
    by (simp only: mathRound_def)
  also have "\<dots> = (a + 500) div 1000" by (rule floor_divide_of_int_eq)
  finally show ?thesis .
qed


lemma try_all_fail:
  "\<forall>k \<in> set hs. isl (upstream k) \<Longrightarrow> hs \<noteq> [] \<Longrightarrow> upstream (last hs) = Inl e \<Longrightarrow>
   tryCandidates upstream hs le = Inl (Some e)"
proof (induction hs arbitrary: le)
  case Nil
  then show ?case by simp
next
  case (Cons h hs)
  from Cons.prems(1) obtain e0 where e0: "upstream h = Inl e0" by (auto simp: isl_def)
  show ?case
  proof (cases "hs = []")
    case True
    with Cons.prems e0 show ?thesis by simp
  next
    case False
    with Cons.prems have "tryCandidates upstream hs (Some e0) = Inl (Some e)"
      by (intro Cons.IH) simp_all
    with e0 show ?thesis by simp
  qed
qed




lemma GET_all_fail:
  assumes "\<forall>k. clampHoursAgo v \<le> k \<and> k \<le> 23 \<longrightarrow> isl (upstream k)"
  shows "\<exists>e. upstream 23 = Inl e \<and> tryCandidates upstream [clampHoursAgo v..23] None = Inl (Some e)"
proof -
  from clampHoursAgo_range [of v] have le: "clampHoursAgo v \<le> 23" by simp
  with assms obtain e where e: "upstream 23 = Inl e" by (auto simp: isl_def)
  have ne: "[clampHoursAgo v..23] \<noteq> []" using le by simp
  have l: "last [clampHoursAgo v..23] = 23" using le by (simp add: upto_rec2)
  have "\<forall>k \<in> set [clampHoursAgo v..23]. isl (upstream k)" using assms by simp
  from try_all_fail [OF this ne, of e None] e l
  show ?thesis by simp
qed





text \<open>
  What the handler does when every bucket fails. It serves the entry of the cache slot
  when the data of the entry are truthy, with \<open>source = cache\<close>, the \<open>hoursAgo\<close> of the
  entry and the age \<open>Math.round\<close> gives; otherwise it answers 502 with the message of the
  last error, that of bucket 23. The slot is not changed either way.
\<close>

lemma GET_fallback:
  assumes "\<forall>k. clampHoursAgo v \<le> k \<and> k \<le> 23 \<longrightarrow> isl (upstream k)"
  shows "(\<forall>c. cache = Some c \<and> truthy (data c) \<longrightarrow>
            GET upstream now v cache
            = (\<lparr>status = 200,
                body = JObj [(''hoursAgo'', jsInt (hoursAgo c)),
                             (''source'', JStr ''cache''),
                             (''cacheAgeSeconds'', jsInt ((now - timestampMs c + 500) div 1000)),
                             (''data'', data c)]\<rparr>,
               cache))
         \<and> (cache = None \<or> (\<exists>c. cache = Some c \<and> \<not> truthy (data c)) \<longrightarrow>
              (\<exists>e. upstream 23 = Inl e
                 \<and> GET upstream now v cache
                   = (\<lparr>status = 502,
                       body = JObj [(''error'', JStr ''No upstream data available and no cached fallback present.''),
                                    (''details'', JStr e)]\<rparr>,
                      cache)))"
proof -
  from GET_all_fail [OF assms] obtain e where
    e: "upstream 23 = Inl e" and t: "tryCandidates upstream [clampHoursAgo v..23] None = Inl (Some e)"
    by blast
  show ?thesis
  proof (intro conjI allI impI)
    fix c
    assume "cache = Some c \<and> truthy (data c)"
    with t show "GET upstream now v cache
            = (\<lparr>status = 200,
                body = JObj [(''hoursAgo'', jsInt (hoursAgo c)),
                             (''source'', JStr ''cache''),
                             (''cacheAgeSeconds'', jsInt ((now - timestampMs c + 500) div 1000)),
                             (''data'', data c)]\<rparr>,
               cache)"
      by (simp add: GET_def mathRound_ms)
  next
    assume "cache = None \<or> (\<exists>c. cache = Some c \<and> \<not> truthy (data c))"
    with t have "GET upstream now v cache
                   = (\<lparr>status = 502,
                       body = JObj [(''error'', JStr ''No upstream data available and no cached fallback present.''),
                                    (''details'', JStr e)]\<rparr>,
                      cache)"
      by (auto simp: GET_def noData_def)
    with e show "\<exists>e. upstream 23 = Inl e
                 \<and> GET upstream now v cache
                   = (\<lparr>status = 502,
                       body = JObj [(''error'', JStr ''No upstream data available and no cached fallback present.''),
                                    (''details'', JStr e)]\<rparr>,
                      cache)" by blast
  qed
qed

lemma GET_fallback_example:
  "truthy (data cache_good)
   \<and> GET up_down 3600 (JFinite 0) (Some cache_good)
      = (\<lparr>status = 200,
          body = JObj [(''hoursAgo'', jsInt 2), (''source'', JStr ''cache''),
                       (''cacheAgeSeconds'', jsInt 3), (''data'', JArr [])]\<rparr>,
         Some cache_good)
   \<and> GET up_down 3600 (JFinite 0) None
      = (\<lparr>status = 502,
          body = JObj [(''error'', JStr ''No upstream data available and no cached fallback present.''),
                       (''details'', JStr ''Upstream down'')]\<rparr>,
         None)"
proof -
  have g: "\<forall>k. clampHoursAgo (JFinite 0) \<le> k \<and> k \<le> 23 \<longrightarrow> isl (up_down k)"
    by (simp add: up_down_def)
  have c: "Some cache_good = Some cache_good \<and> truthy (data cache_good)" by (simp add: cache_good_def)
  note a = GET_fallback [OF g, of "Some cache_good" 3600, THEN conjunct1, rule_format, OF c]
  have n: "(None :: CacheEntry option) = None \<or> (\<exists>c. (None :: CacheEntry option) = Some c \<and> \<not> truthy (data c))"
    by simp
  note b = GET_fallback [OF g, of None 3600, THEN conjunct2, rule_format, OF n]
  from a have a': "GET up_down 3600 (JFinite 0) (Some cache_good)
      = (\<lparr>status = 200,
          body = JObj [(''hoursAgo'', jsInt 2), (''source'', JStr ''cache''),
                       (''cacheAgeSeconds'', jsInt 3), (''data'', JArr [])]\<rparr>,
         Some cache_good)"
    by (simp add: cache_good_def)
  from b have b': "GET up_down 3600 (JFinite 0) None
      = (\<lparr>status = 502,
          body = JObj [(''error'', JStr ''No upstream data available and no cached fallback present.''),
                       (''details'', JStr ''Upstream down'')]\<rparr>,
         None)"
    by (auto simp: up_down_def)
  from a' b' c show ?thesis by simp
qed

text \<open>
  Claim C4. When every bucket fails and the cache slot is filled, the handler is to
  return the cached data with \<open>source = cache\<close>, and to fail with status 502 only when
  the slot is empty. It does not do so for every filled slot: a bucket that answers with
  the JSON value \<open>null\<close> is a success, is served with status 200 and fills the slot;
  when every bucket fails afterwards, the test \<open>globalThis.__balloonCache?.data\<close> takes
  the filled slot for an empty one, and the handler answers 502, "no cached fallback
  present", with the slot still filled.
\<close>

theorem GET_cached_null_not_served:
  "GET up_null 1000 (JFinite 2) None
     = (\<lparr>status = 200,
         body = JObj [(''hoursAgo'', jsInt 2), (''source'', JStr ''upstream''), (''data'', JNull)]\<rparr>,
        Some cache_null)
   \<and> Some cache_null \<noteq> None
   \<and> isl (up_down 0) \<and> isl (up_down 23)
   \<and> GET up_down 3600 (JFinite 0) (Some cache_null)
      = (\<lparr>status = 502,
          body = JObj [(''error'', JStr ''No upstream data available and no cached fallback present.''),
                       (''details'', JStr ''Upstream down'')]\<rparr>,
         Some cache_null)"
proof -
  have c: "clampHoursAgo (JFinite 2) = 2" by (simp add: clampHoursAgo_def)
  have "[2..23] = 2 # [3..23]" by (simp add: upto_rec1)
  then have "tryCandidates up_null [2..23] None = Inr (2, JNull)"
    by (simp add: up_null_def)
  then have a: "GET up_null 1000 (JFinite 2) None
     = (\<lparr>status = 200,
         body = JObj [(''hoursAgo'', jsInt 2), (''source'', JStr ''upstream''), (''data'', JNull)]\<rparr>,
        Some cache_null)"
    by (simp add: GET_def c cache_null_def)
  have "tryCandidates up_down [0..23] None = Inl (Some ''Upstream down'')"
    by (rule try_all_fail) (simp_all add: up_down_def upto_rec2)
  then have b: "GET up_down 3600 (JFinite 0) (Some cache_null)
      = (\<lparr>status = 502,
          body = JObj [(''error'', JStr ''No upstream data available and no cached fallback present.''),
                       (''details'', JStr ''Upstream down'')]\<rparr>,
         Some cache_null)"
    by (simp add: GET_def clampHoursAgo_def cache_null_def noData_def)
  from a b show ?thesis by (simp add: up_down_def)
qed

section \<open>The normalizer\<close>

lemma pointLike_not_track: "pointLike q \<Longrightarrow> \<not> pointLike (JArr (q # qs))"
  by (cases q) (auto simp: elemAt_def isNumber_def)

lemma length_keepPoints: "length (keepPoints xs) \<le> length xs"
  by (simp add: keepPoints_def map_filter_def)

lemma keepPoints_Some:
  "map Some (keepPoints xs) = filter (\<lambda>r. r \<noteq> None) (map normalizePoint xs)"
  by (induction xs) (auto simp: keepPoints_def map_filter_def)

lemma length_preview: "length (preview s d) \<le> 200"
  by (cases d) (simp_all add: preview_def)

lemma extract_ex_flat: "extractLatestPositions s ex_flat = Inr [\<lparr>lat = 1, lon = 2, meta = None\<rparr>, \<lparr>lat = 3, lon = 4, meta = None\<rparr>]"
  by (simp add: ex_flat_def extractLatestPositions_def keepPoints_def map_filter_def normalizeArray_def elemAt_def isNumber_def)

lemma extract_ex_tracks: "extractLatestPositions s ex_tracks = Inr [\<lparr>lat = 3, lon = 4, meta = None\<rparr>, \<lparr>lat = 5, lon = 6, meta = None\<rparr>]"
  by (simp add: ex_tracks_def extractLatestPositions_def keepPoints_def map_filter_def normalizeArray_def elemAt_def isNumber_def)

lemma asNumber_Some_iff: "asNumber x = Some r \<longleftrightarrow> x = JNum (JFinite r)"
  by (cases x rule: asNumber.cases) auto

lemma extract_Inr_cases:
  assumes "extractLatestPositions s raw = Inr out"
  shows "\<exists>xs. unwrapPayload raw = JArr xs \<and>
           ((isFlatPointsShape (JArr xs) \<and> out = keepPoints xs)
            \<or> (\<not> isFlatPointsShape (JArr xs) \<and> isTracksShape (JArr xs) \<and> out = keepPoints (map lastOfTrack xs)))"
proof (cases "unwrapPayload raw")
  case (JArr xs)
  show ?thesis
  proof (cases "xs = []")
    case True
    with JArr assms show ?thesis
      by (simp add: extractLatestPositions_def keepPoints_def map_filter_def)
  next
    case False
    with JArr assms show ?thesis
      by (auto simp: extractLatestPositions_def Let_def
               simp del: isTracksShape.simps isFlatPointsShape.simps split: if_splits)
  qed
qed (use assms in \<open>simp_all add: extractLatestPositions_def\<close>)

lemma keepPoints_append: "keepPoints (xs @ ys) = keepPoints xs @ keepPoints ys"
  by (simp add: keepPoints_def map_filter_def)

lemma not_nonempty_array_dropped:
  "(\<forall>ps. t = JArr ps \<longrightarrow> ps = []) \<Longrightarrow> normalizePoint (lastOfTrack t) = None"
  by (cases t) auto

lemma ex_ragged_out:
  "extractLatestPositions (\<lambda>d. ''?'') ex_ragged
     = Inr [\<lparr>lat = 1, lon = 2, meta = None\<rparr>, \<lparr>lat = 9, lon = 10, meta = None\<rparr>]"
  by (simp add: ex_ragged_def extractLatestPositions_def keepPoints_def map_filter_def
        normalizeArray_def elemAt_def isNumber_def)

text \<open>
  Claim C6. \<open>normalizePoint\<close> on a candidate \<open>[a, b, attribute?]\<close>: unless both \<open>a\<close> and
  \<open>b\<close> are finite numbers the candidate is dropped, by returning \<open>null\<close> and not by an
  error. If \<open>|a| > 90\<close> and \<open>|b| \<le> 90\<close> then \<open>a\<close> is the longitude and \<open>b\<close> the latitude,
  otherwise \<open>a\<close> is the latitude and \<open>b\<close> the longitude. After that the point is dropped
  if \<open>|lat| > 90\<close> or \<open>|lon| > 180\<close>, so every point returned is in range. The third element
  is the attribute of the point exactly when it is a finite number. \<open>[100, 45]\<close> gives
  \<open>lat = 45, lon = 100\<close>, and \<open>[45, 100]\<close> is not swapped.
\<close>

theorem normalizePoint_interpretation:
  "(\<not> (isNumber a \<and> isNumber b) \<longrightarrow> normalizePoint (JArr (a # b # rest)) = None)
   \<and> (\<forall>x y. asNumber a = Some x \<and> asNumber b = Some y \<and> \<bar>x\<bar> > 90 \<and> \<bar>y\<bar> \<le> 90 \<longrightarrow>
         normalizePoint (JArr (a # b # rest)) =
           (if \<bar>x\<bar> > 180 then None
            else Some \<lparr>lat = y, lon = x, meta = asNumber (elemAt rest 0)\<rparr>))
   \<and> (\<forall>x y. asNumber a = Some x \<and> asNumber b = Some y \<and> \<not> (\<bar>x\<bar> > 90 \<and> \<bar>y\<bar> \<le> 90) \<longrightarrow>
         normalizePoint (JArr (a # b # rest)) =
           (if \<bar>x\<bar> > 90 \<or> \<bar>y\<bar> > 180 then None
            else Some \<lparr>lat = x, lon = y, meta = asNumber (elemAt rest 0)\<rparr>))
   \<and> (\<forall>pt. normalizePoint (JArr (a # b # rest)) = Some pt \<longrightarrow>
         \<bar>lat pt\<bar> \<le> 90 \<and> \<bar>lon pt\<bar> \<le> 180
         \<and> (\<forall>m. meta pt = Some m \<longleftrightarrow> (\<exists>more. rest = JNum (JFinite m) # more)))
   \<and> normalizePoint (JArr [JNum (JFinite 100), JNum (JFinite 45)])
         = Some \<lparr>lat = 45, lon = 100, meta = None\<rparr>
   \<and> normalizePoint (JArr [JNum (JFinite 45), JNum (JFinite 100)])
         = Some \<lparr>lat = 45, lon = 100, meta = None\<rparr>"
  apply (intro conjI allI impI)
  subgoal by (auto simp: normalizeArray_def isNumber_def elemAt_def split: option.splits)
  subgoal by (auto simp: normalizeArray_def isNumber_def elemAt_def Let_def split: option.splits)
  subgoal by (auto simp: normalizeArray_def isNumber_def elemAt_def Let_def split: option.splits)
  subgoal by (auto simp: normalizeArray_def isNumber_def elemAt_def Let_def split: option.splits if_splits)
  subgoal by (auto simp: normalizeArray_def isNumber_def elemAt_def Let_def split: option.splits if_splits)
  subgoal by (cases rest) (auto simp: normalizeArray_def isNumber_def elemAt_def Let_def asNumber_Some_iff split: option.splits if_splits)
  subgoal by (auto simp: normalizeArray_def isNumber_def elemAt_def Let_def split: option.splits if_splits)
  subgoal by (auto simp: normalizeArray_def isNumber_def elemAt_def Let_def split: option.splits if_splits)
  done

theorem normalizePoint_interpretation_witness:
  "asNumber (JNum (JFinite 200)) = Some 200 \<and> asNumber (JNum (JFinite 45)) = Some 45
   \<and> \<bar>200 :: real\<bar> > 90 \<and> \<bar>45 :: real\<bar> \<le> 90
   \<and> normalizePoint (JArr [JNum (JFinite 200), JNum (JFinite 45), JNum (JFinite 7)]) = None
   \<and> \<not> (isNumber (JStr ''x'') \<and> isNumber (JNum (JFinite 1)))
   \<and> normalizePoint (JArr [JStr ''x'', JNum (JFinite 1)]) = None
   \<and> asNumber (JNum (JFinite 10)) = Some 10 \<and> asNumber (JNum (JFinite 20)) = Some 20
   \<and> \<not> (\<bar>10 :: real\<bar> > 90 \<and> \<bar>20 :: real\<bar> \<le> 90)
   \<and> normalizePoint (JArr [JNum (JFinite 10), JNum (JFinite 20), JNum JPosInf])
         = Some \<lparr>lat = 10, lon = 20, meta = None\<rparr>"
  using normalizePoint_interpretation [of "JNum (JFinite 200)" "JNum (JFinite 45)" "[JNum (JFinite 7)]"]
        normalizePoint_interpretation [of "JStr ''x''" "JNum (JFinite 1)" "[]"]
        normalizePoint_interpretation [of "JNum (JFinite 10)" "JNum (JFinite 20)" "[JNum JPosInf]"]
  by (simp add: isNumber_def elemAt_def)

text \<open>
  Claim C5. \<open>extractLatestPositions\<close> works on the unwrapped payload and routes by shape
  in this order: an empty array gives the empty list; an array whose first element is an
  array of at least two entries that starts with two finite numbers is a flat point list,
  and every top-level element is a candidate point; an array whose first element is a
  non-empty array whose first element is such a point is a list of tracks, and the
  candidate of a track is its last element; everything else raises an error whose
  message ends with a preview of at most 200 characters, the first 200 of the
  stringified payload. The three examples of the specification are included.
\<close>

theorem extractLatestPositions_routing:
  "(unwrapPayload raw = JArr [] \<longrightarrow> extractLatestPositions s raw = Inr [])
   \<and> (\<forall>x xs. unwrapPayload raw = JArr (x # xs) \<and> pointLike x \<longrightarrow>
         extractLatestPositions s raw = Inr (keepPoints (x # xs)))
   \<and> (\<forall>q qs ts. unwrapPayload raw = JArr (JArr (q # qs) # ts) \<and> pointLike q \<longrightarrow>
         extractLatestPositions s raw = Inr (keepPoints (map lastOfTrack (JArr (q # qs) # ts))))
   \<and> (unwrapPayload raw \<noteq> JArr []
        \<and> (\<forall>x xs. unwrapPayload raw = JArr (x # xs) \<longrightarrow> \<not> pointLike x)
        \<and> (\<forall>q qs ts. unwrapPayload raw = JArr (JArr (q # qs) # ts) \<longrightarrow> \<not> pointLike q) \<longrightarrow>
         extractLatestPositions s raw =
           Inl (''Unexpected balloon data shape. Preview: '' @ preview s (unwrapPayload raw))
         \<and> length (preview s (unwrapPayload raw)) \<le> 200
         \<and> (unwrapPayload raw \<noteq> JUndefined \<longrightarrow>
              preview s (unwrapPayload raw) = take 200 (s (unwrapPayload raw))))
   \<and> extractLatestPositions s ex_flat
         = Inr [\<lparr>lat = 1, lon = 2, meta = None\<rparr>, \<lparr>lat = 3, lon = 4, meta = None\<rparr>]
   \<and> extractLatestPositions s ex_tracks
         = Inr [\<lparr>lat = 3, lon = 4, meta = None\<rparr>, \<lparr>lat = 5, lon = 6, meta = None\<rparr>]"
proof (intro conjI allI impI)
  assume "unwrapPayload raw = JArr []"
  then show "extractLatestPositions s raw = Inr []"
    by (simp add: extractLatestPositions_def)
next
  fix x xs
  assume "unwrapPayload raw = JArr (x # xs) \<and> pointLike x"
  then show "extractLatestPositions s raw = Inr (keepPoints (x # xs))"
    by (simp add: extractLatestPositions_def elemAt_def)
next
  fix q qs ts
  assume h: "unwrapPayload raw = JArr (JArr (q # qs) # ts) \<and> pointLike q"
  then have "\<not> pointLike (JArr (q # qs))" using pointLike_not_track by blast
  with h show "extractLatestPositions s raw = Inr (keepPoints (map lastOfTrack (JArr (q # qs) # ts)))"
    by (simp add: extractLatestPositions_def elemAt_def del: pointLike.simps lastOfTrack.simps)
next
  assume h: "unwrapPayload raw \<noteq> JArr []
        \<and> (\<forall>x xs. unwrapPayload raw = JArr (x # xs) \<longrightarrow> \<not> pointLike x)
        \<and> (\<forall>q qs ts. unwrapPayload raw = JArr (JArr (q # qs) # ts) \<longrightarrow> \<not> pointLike q)"
  have nf: "\<not> isFlatPointsShape (unwrapPayload raw)"
  proof (cases "unwrapPayload raw")
    case (JArr d)
    with h show ?thesis by (cases d) (auto simp: elemAt_def)
  qed simp_all
  have nt: "\<not> isTracksShape (unwrapPayload raw)"
  proof (cases "unwrapPayload raw")
    case (JArr d)
    show ?thesis
    proof (cases d)
      case Nil
      with JArr h show ?thesis by simp
    next
      case (Cons t ts)
      show ?thesis
      proof (cases t)
        case (JArr ft)
        with Cons \<open>unwrapPayload raw = JArr d\<close> h show ?thesis
          by (cases ft) (auto simp: elemAt_def)
      qed (simp_all add: Cons \<open>unwrapPayload raw = JArr d\<close> elemAt_def)
    qed
  qed simp_all
  from h nf nt show "extractLatestPositions s raw =
           Inl (''Unexpected balloon data shape. Preview: '' @ preview s (unwrapPayload raw))"
    by (simp add: extractLatestPositions_def)
  show "length (preview s (unwrapPayload raw)) \<le> 200" by (rule length_preview)
  show "unwrapPayload raw \<noteq> JUndefined \<Longrightarrow> preview s (unwrapPayload raw) = take 200 (s (unwrapPayload raw))"
    by (cases "unwrapPayload raw") (simp_all add: preview_def)
next
  show "extractLatestPositions s ex_flat
         = Inr [\<lparr>lat = 1, lon = 2, meta = None\<rparr>, \<lparr>lat = 3, lon = 4, meta = None\<rparr>]"
    by (rule extract_ex_flat)
next
  show "extractLatestPositions s ex_tracks
         = Inr [\<lparr>lat = 3, lon = 4, meta = None\<rparr>, \<lparr>lat = 5, lon = 6, meta = None\<rparr>]"
    by (rule extract_ex_tracks)
qed

theorem extractLatestPositions_routing_witness:
  "unwrapPayload (JObj [(''data'', ex_tracks)]) = ex_tracks
   \<and> extractLatestPositions (\<lambda>d. ''?'') (JObj [(''data'', ex_tracks)])
        = Inr (keepPoints (map lastOfTrack
            [JArr [JArr [JNum (JFinite 1), JNum (JFinite 2)], JArr [JNum (JFinite 3), JNum (JFinite 4)]],
             JArr [JArr [JNum (JFinite 5), JNum (JFinite 6)]]]))
   \<and> unwrapPayload ex_flat = ex_flat
   \<and> extractLatestPositions (\<lambda>d. ''?'') ex_flat
        = Inr (keepPoints [JArr [JNum (JFinite 1), JNum (JFinite 2)], JArr [JNum (JFinite 3), JNum (JFinite 4)]])
   \<and> extractLatestPositions (\<lambda>d. ''?'') (JArr []) = Inr []
   \<and> extractLatestPositions (\<lambda>d. ''?'') (JStr ''oops'')
        = Inl ''Unexpected balloon data shape. Preview: ?''"
  using extractLatestPositions_routing [of "JObj [(''data'', ex_tracks)]" "\<lambda>d. ''?''"]
        extractLatestPositions_routing [of ex_flat "\<lambda>d. ''?''"]
        extractLatestPositions_routing [of "JArr []" "\<lambda>d. ''?''"]
        extractLatestPositions_routing [of "JStr ''oops''" "\<lambda>d. ''?''"]
  by (simp add: ex_tracks_def ex_flat_def isNumber_def elemAt_def preview_def)

text \<open>
  Claim C8. Whenever the normalizer accepts a payload, the payload unwraps to an array,
  the output is not longer than that array, and the output is, in order, exactly the
  results of \<open>normalizePoint\<close> that are not \<open>null\<close>, taken over the elements (flat shape) or
  over the last elements of the tracks (track shape): points are only dropped, nothing is
  invented, reordered or replaced by a placeholder.
\<close>

theorem normalizer_only_drops:
  assumes "extractLatestPositions s raw = Inr out"
  shows "\<exists>xs. unwrapPayload raw = JArr xs \<and> length out \<le> length xs
           \<and> (isFlatPointsShape (JArr xs) \<longrightarrow>
                 map Some out = filter (\<lambda>r. r \<noteq> None) (map normalizePoint xs)
                 \<and> subseq (map Some out) (map normalizePoint xs))
           \<and> (\<not> isFlatPointsShape (JArr xs) \<longrightarrow>
                 map Some out = filter (\<lambda>r. r \<noteq> None) (map normalizePoint (map lastOfTrack xs))
                 \<and> subseq (map Some out) (map normalizePoint (map lastOfTrack xs)))"
proof -
  from extract_Inr_cases [OF assms] obtain xs where
    u: "unwrapPayload raw = JArr xs" and
    c: "(isFlatPointsShape (JArr xs) \<and> out = keepPoints xs)
            \<or> (\<not> isFlatPointsShape (JArr xs) \<and> isTracksShape (JArr xs) \<and> out = keepPoints (map lastOfTrack xs))"
    by blast
  from c have len: "length out \<le> length xs"
    using length_keepPoints [of xs] length_keepPoints [of "map lastOfTrack xs"] by auto
  from c have a: "isFlatPointsShape (JArr xs) \<Longrightarrow> map Some out = filter (\<lambda>r. r \<noteq> None) (map normalizePoint xs)"
    by (auto simp: keepPoints_Some)
  from c have b: "\<not> isFlatPointsShape (JArr xs) \<Longrightarrow> map Some out = filter (\<lambda>r. r \<noteq> None) (map normalizePoint (map lastOfTrack xs))"
    by (auto simp: keepPoints_Some simp del: isFlatPointsShape.simps)
  show ?thesis
    using u len a b by (intro exI [of _ xs]) (auto simp del: isFlatPointsShape.simps)
qed

theorem normalizer_only_drops_witness:
  "extractLatestPositions (\<lambda>d. ''?'') ex_ragged
     = Inr [\<lparr>lat = 1, lon = 2, meta = None\<rparr>, \<lparr>lat = 9, lon = 10, meta = None\<rparr>]
   \<and> (\<exists>xs. unwrapPayload ex_ragged = JArr xs
         \<and> length [\<lparr>lat = 1, lon = 2, meta = None\<rparr>, \<lparr>lat = 9, lon = 10, meta = (None :: real option)\<rparr>] \<le> length xs
         \<and> (\<not> isFlatPointsShape (JArr xs) \<longrightarrow>
              subseq (map Some [\<lparr>lat = 1, lon = 2, meta = None\<rparr>, \<lparr>lat = 9, lon = 10, meta = None\<rparr>])
                     (map normalizePoint (map lastOfTrack xs))))"
  using normalizer_only_drops [OF ex_ragged_out] ex_ragged_out by blast

text \<open>
  Claim C10. Only the first element decides the shape. In a payload of track shape a
  later top-level element that is not a non-empty array is mapped to \<open>null\<close> and filtered
  out: the call succeeds and returns what it returns without that element.
\<close>

theorem malformed_track_dropped:
  assumes "isTracksShape (JArr (t0 # ts @ t # us))"
      and "\<not> isFlatPointsShape (JArr (t0 # ts @ t # us))"
      and "\<forall>ps. t = JArr ps \<longrightarrow> ps = []"
  shows "extractLatestPositions s (JArr (t0 # ts @ t # us))
           = Inr (keepPoints (map lastOfTrack (t0 # ts @ us)))
         \<and> extractLatestPositions s (JArr (t0 # ts @ t # us))
           = extractLatestPositions s (JArr (t0 # ts @ us))"
proof -
  have k: "keepPoints [lastOfTrack t] = []"
    using not_nonempty_array_dropped [OF assms(3)] by (simp add: keepPoints_def map_filter_def)
  have e: "keepPoints (map lastOfTrack (t0 # ts @ t # us)) = keepPoints (map lastOfTrack (t0 # ts @ us))"
    using keepPoints_append [of "map lastOfTrack (t0 # ts)" "map lastOfTrack (t # us)"]
          keepPoints_append [of "[lastOfTrack t]" "map lastOfTrack us"]
          keepPoints_append [of "map lastOfTrack (t0 # ts)" "map lastOfTrack us"] k
    by simp
  from assms(1,2) have t1: "isTracksShape (JArr (t0 # ts @ us))" "\<not> isFlatPointsShape (JArr (t0 # ts @ us))"
    by (simp_all add: elemAt_def)
  have l: "extractLatestPositions s (JArr (t0 # ts @ t # us)) = Inr (keepPoints (map lastOfTrack (t0 # ts @ t # us)))"
    using assms(1,2) by (simp add: extractLatestPositions_def del: isTracksShape.simps isFlatPointsShape.simps)
  have r: "extractLatestPositions s (JArr (t0 # ts @ us)) = Inr (keepPoints (map lastOfTrack (t0 # ts @ us)))"
    using t1 by (simp add: extractLatestPositions_def del: isTracksShape.simps isFlatPointsShape.simps)
  from l r e show ?thesis by simp
qed

theorem malformed_track_dropped_witness:
  "isTracksShape ex_ragged \<and> \<not> isFlatPointsShape ex_ragged
   \<and> extractLatestPositions (\<lambda>d. ''?'') ex_ragged
     = extractLatestPositions (\<lambda>d. ''?'')
         (JArr [JArr [JArr [JNum (JFinite 1), JNum (JFinite 2)]],
                JStr ''gap'',
                JArr [JArr [JNum (JFinite 5), JNum (JFinite 6)], JArr [JNum (JFinite 7), JNum (JFinite 800)]],
                JArr [JArr [JNum (JFinite 9), JNum (JFinite 10)]]])"
proof -
  have a: "isTracksShape ex_ragged" and b: "\<not> isFlatPointsShape ex_ragged"
    by (simp_all add: ex_ragged_def elemAt_def isNumber_def)
  have c: "\<forall>ps. JArr [] = JArr ps \<longrightarrow> ps = []" by simp
  have e: "ex_ragged = JArr (JArr [JArr [JNum (JFinite 1), JNum (JFinite 2)]] # [] @ JArr [] #
              [JStr ''gap'',
               JArr [JArr [JNum (JFinite 5), JNum (JFinite 6)], JArr [JNum (JFinite 7), JNum (JFinite 800)]],
               JArr [JArr [JNum (JFinite 9), JNum (JFinite 10)]]])"
    by (simp add: ex_ragged_def)
  have w: "extractLatestPositions (\<lambda>d. ''?'') ex_ragged
     = extractLatestPositions (\<lambda>d. ''?'')
         (JArr (JArr [JArr [JNum (JFinite 1), JNum (JFinite 2)]] # [] @
                [JStr ''gap'',
                 JArr [JArr [JNum (JFinite 5), JNum (JFinite 6)], JArr [JNum (JFinite 7), JNum (JFinite 800)]],
                 JArr [JArr [JNum (JFinite 9), JNum (JFinite 10)]]]))"
    unfolding e
    by (rule malformed_track_dropped [OF a [unfolded e] b [unfolded e] c, THEN conjunct2])
  from a b w show ?thesis by simp
qed

end
